theory Spec2Isabelle
  imports Main "HOL-Library.Word"
begin

unbundle bit_operations_syntax

section \<open>JavaScript strings\<close>

text \<open>
  A JavaScript string is a sequence of UTF-16 code units. String literals of the source
  that are plain ASCII are written \<open>js ''...''\<close>; the Korean user messages are given by
  their code units.
\<close>

type_synonym jsstring = "16 word list"

definition js :: "string \<Rightarrow> jsstring" where
  "js s = map (\<lambda>c. of_nat (of_char c)) s"

text \<open>
  \<open>String.prototype.trim\<close> removes WhiteSpace and LineTerminator code points from both
  ends: TAB, LF, VT, FF, CR, SP, NBSP, U+1680, U+2000..U+200A, U+2028, U+2029, U+202F,
  U+205F, U+3000 and U+FEFF.
\<close>

definition is_ws :: "16 word \<Rightarrow> bool" where
  "is_ws c = (c = 0x9 \<or> c = 0xA \<or> c = 0xB \<or> c = 0xC \<or> c = 0xD \<or> c = 0x20 \<or> c = 0xA0
     \<or> c = 0x1680 \<or> (0x2000 \<le> c \<and> c \<le> 0x200A) \<or> c = 0x2028 \<or> c = 0x2029
     \<or> c = 0x202F \<or> c = 0x205F \<or> c = 0x3000 \<or> c = 0xFEFF)"

definition trim :: "jsstring \<Rightarrow> jsstring" where
  "trim s = rev (dropWhile is_ws (rev (dropWhile is_ws s)))"

definition startsWith :: "jsstring \<Rightarrow> jsstring \<Rightarrow> bool" where
  "startsWith s p = (take (length p) s = p)"

text \<open>\<open>s.split('\n')\<close>: the segments between line feeds; never the empty array.\<close>

fun split_on :: "16 word \<Rightarrow> jsstring \<Rightarrow> jsstring list" where
  "split_on d [] = [[]]"
| "split_on d (c # cs) =
     (if c = d then [] # split_on d cs
      else (case split_on d cs of [] \<Rightarrow> [[c]] | w # ws \<Rightarrow> (c # w) # ws))"

text \<open>\<open>xs.join('\n')\<close>.\<close>

fun join_with :: "16 word \<Rightarrow> jsstring list \<Rightarrow> jsstring" where
  "join_with d [] = []"
| "join_with d [x] = x"
| "join_with d (x # y # ys) = x @ d # join_with d (y # ys)"

definition LF :: "16 word" where
  "LF = 0xA"

section \<open>BatchCookieModal.tsx\<close>

datatype status = Pending | Processing | Success | Error

record CookieResult =
  cookie :: jsstring
  status :: status
  error :: "jsstring option"
  organizationUuid :: "jsstring option"

text \<open>The component state: the four \<open>useState\<close> cells.\<close>

record BatchState =
  cookies :: jsstring
  isProcessing :: bool
  results :: "CookieResult list"
  showResults :: bool

record validated =
  isValid :: bool
  processedValue :: jsstring

definition validateAndProcessCookie :: "jsstring \<Rightarrow> validated" where
  "validateAndProcessCookie cookieValue =
     (let processedValue0 = trim cookieValue;
          processedValue1 =
            (if startsWith processedValue0 (js ''sk-ant-sid01-'')
             then js ''sessionKey='' @ processedValue0
             else processedValue0);
          isValid0 = startsWith processedValue1 (js ''sessionKey=sk-ant-sid01-'')
      in \<lparr>isValid = isValid0, processedValue = processedValue1\<rparr>)"

text \<open>The two fixed messages of the component.\<close>

definition msg_invalid_format :: jsstring where
  "msg_invalid_format =
     [0xCFE0, 0xD0A4, 0x0020, 0xD615, 0xC2DD, 0xC774, 0x0020,
      0xC798, 0xBABB, 0xB418, 0xC5C8, 0xC2B5, 0xB2C8, 0xB2E4]"

definition msg_add_failed :: jsstring where
  "msg_add_failed = [0xCD94, 0xAC00, 0x0020, 0xC2E4, 0xD328]"

text \<open>
  \<open>accountsApi.create\<close> is an external collaborator: it either resolves with the
  organisation identifier of the new account, or rejects, the rejection carrying
  \<open>error.response?.data?.detail?.message\<close> when the backend sent one. The backend is a
  parameter of the model: a function from its own state and the submitted
  \<open>cookie_value\<close> to the answer and its next state.
\<close>

datatype create_response = Created jsstring | Rejected "jsstring option"

type_synonym 'b backend = "'b \<Rightarrow> jsstring \<Rightarrow> create_response \<times> 'b"

text \<open>
  What \<open>handleSubmit\<close> does, in order: the state updates \<open>setIsProcessing(v)\<close>,
  \<open>setShowResults(v)\<close>, \<open>setResults(initialResults)\<close> and
  \<open>setResults(prev => ...)\<close>, the last one logged with the index it writes and the
  status it writes there; and its two suspension points, the request
  \<open>await accountsApi.create({cookie_value})\<close> and the pause
  \<open>await new Promise(resolve => setTimeout(resolve, ms))\<close>. Each entry of a trace pairs
  the action with the component state right after it; at a suspension point that is the
  state other event handlers see.
\<close>

datatype action =
    SetIsProcessing bool
  | SetShowResults bool
  | SetResults
  | SetRow nat status
  | AwaitCreate jsstring
  | AwaitTimeout nat

type_synonym trace = "(action \<times> BatchState) list"

text \<open>
  \<open>const updated = [...prev]; updated[i] = f(updated[i]); return updated\<close>. The loop
  writes index \<open>i\<close> of an array that holds one row per line from
  \<open>setResults(initialResults)\<close> on (the hypotheses of lemma \<open>process_lines_outcome\<close>,
  which hold at every iteration), so the index is in range; the extension JavaScript
  performs on an out-of-range write does not arise and is left out.
\<close>

definition set_row :: "nat \<Rightarrow> (CookieResult \<Rightarrow> CookieResult) \<Rightarrow> CookieResult list \<Rightarrow> CookieResult list" where
  "set_row i f prev = (if i < length prev then prev[i := f (prev ! i)] else prev)"

definition mark_processing :: "CookieResult \<Rightarrow> CookieResult" where
  "mark_processing r = r\<lparr>status := Processing\<rparr>"

definition mark_error :: "jsstring \<Rightarrow> CookieResult \<Rightarrow> CookieResult" where
  "mark_error m r = r\<lparr>status := Error, error := Some m\<rparr>"

definition mark_success :: "jsstring \<Rightarrow> CookieResult \<Rightarrow> CookieResult" where
  "mark_success uuid r = r\<lparr>status := Success, organizationUuid := Some uuid\<rparr>"

text \<open>\<open>error.response?.data?.detail?.message || '...'\<close>: an empty message is falsy.\<close>

definition errorMessage :: "jsstring option \<Rightarrow> jsstring" where
  "errorMessage m = (case m of None \<Rightarrow> msg_add_failed
                     | Some t \<Rightarrow> if t = [] then msg_add_failed else t)"

text \<open>
  The body of the \<open>for\<close> loop at index \<open>i\<close>: what it does, the backend's next state
  and the component state it leaves. An invalid line takes the \<open>continue\<close>, which
  leaves the body before its final pause.
\<close>

definition process_line :: "'b backend \<Rightarrow> nat \<Rightarrow> jsstring \<Rightarrow> 'b \<Rightarrow> BatchState \<Rightarrow> trace \<times> 'b \<times> BatchState" where
  "process_line create i line b st =
     (let st1 = st\<lparr>results := set_row i mark_processing (results st)\<rparr>;
          v = validateAndProcessCookie line
      in if \<not> isValid v then
           (let st2 = st1\<lparr>results := set_row i (mark_error msg_invalid_format) (results st1)\<rparr>
            in ([(SetRow i Processing, st1), (SetRow i Error, st2)], b, st2))
         else
           (case create b (processedValue v) of
              (Created uuid, b1) \<Rightarrow>
                (let st2 = st1\<lparr>results := set_row i (mark_success uuid) (results st1)\<rparr>
                 in ([(SetRow i Processing, st1), (AwaitCreate (processedValue v), st1),
                      (SetRow i Success, st2), (AwaitTimeout 300, st2)], b1, st2))
            | (Rejected m, b1) \<Rightarrow>
                (let st2 = st1\<lparr>results := set_row i (mark_error (errorMessage m)) (results st1)\<rparr>
                 in ([(SetRow i Processing, st1), (AwaitCreate (processedValue v), st1),
                      (SetRow i Error, st2), (AwaitTimeout 300, st2)], b1, st2))))"

text \<open>\<open>for (let i = 0; i < cookieLines.length; i++)\<close>, on the lines from \<open>i\<close> on.\<close>

fun process_lines :: "'b backend \<Rightarrow> nat \<Rightarrow> jsstring list \<Rightarrow> 'b \<Rightarrow> BatchState \<Rightarrow> trace \<times> 'b \<times> BatchState" where
  "process_lines create i [] b st = ([], b, st)"
| "process_lines create i (line # rest) b st =
     (case process_line create i line b st of
        (tr1, b1, st1) \<Rightarrow>
          (case process_lines create (Suc i) rest b1 st1 of
             (tr, b', st') \<Rightarrow> (tr1 @ tr, b', st')))"

definition cookieLines_of :: "jsstring \<Rightarrow> jsstring list" where
  "cookieLines_of text = filter (\<lambda>line. length line > 0) (map trim (split_on LF text))"

definition initialResults :: "jsstring list \<Rightarrow> CookieResult list" where
  "initialResults cookieLines =
     map (\<lambda>c. \<lparr>cookie = c, status = Pending, error = None, organizationUuid = None\<rparr>) cookieLines"

definition handleSubmit :: "'b backend \<Rightarrow> 'b \<Rightarrow> BatchState \<Rightarrow> trace \<times> 'b \<times> BatchState" where
  "handleSubmit create b st =
     (let cookieLines = cookieLines_of (cookies st)
      in if length cookieLines = 0 then ([], b, st)
         else
           (let st1 = st\<lparr>isProcessing := True\<rparr>;
                st2 = st1\<lparr>showResults := True\<rparr>;
                st3 = st2\<lparr>results := initialResults cookieLines\<rparr>
            in case process_lines create 0 cookieLines b st3 of
                 (tr, b', st4) \<Rightarrow>
                   (let st5 = st4\<lparr>isProcessing := False\<rparr>
                    in ([(SetIsProcessing True, st1), (SetShowResults True, st2), (SetResults, st3)]
                          @ tr @ [(SetIsProcessing False, st5)],
                        b', st5))))"

text \<open>\<open>copyFailedCookies\<close>: the text handed to \<open>navigator.clipboard.writeText\<close>.\<close>

definition copyFailedCookies :: "BatchState \<Rightarrow> jsstring" where
  "copyFailedCookies st =
     join_with LF (map cookie (filter (\<lambda>r. status r = Error) (results st)))"

text \<open>\<open>handleClose\<close>: whether \<open>onClose()\<close> is called.\<close>

definition handleClose :: "BatchState \<Rightarrow> bool" where
  "handleClose st = (if isProcessing st then False else True)"

section \<open>AccountModal.tsx\<close>

text \<open>The single-account form carries its own copy of the function.\<close>

definition AccountModal_validateAndProcessCookie :: "jsstring \<Rightarrow> validated" where
  "AccountModal_validateAndProcessCookie cookieValue =
     (let processedValue0 = trim cookieValue;
          processedValue1 =
            (if startsWith processedValue0 (js ''sk-ant-sid01-'')
             then js ''sessionKey='' @ processedValue0
             else processedValue0);
          isValid0 = startsWith processedValue1 (js ''sessionKey=sk-ant-sid01-'')
      in \<lparr>isValid = isValid0, processedValue = processedValue1\<rparr>)"

section \<open>OAuthModal.tsx: the PKCE generator\<close>

type_synonym byte = "8 word"

subsection \<open>Platform functions\<close>

text \<open>\<open>String.fromCharCode.apply(null, Array.from(bytes))\<close>: one code unit per byte.\<close>

definition fromCharCode :: "byte list \<Rightarrow> jsstring" where
  "fromCharCode bytes = map ucast bytes"

text \<open>
  \<open>btoa\<close>: the base64 encoding (RFC 4648, with padding) of a string of code units up
  to 255; it throws on any other string, which is the value \<open>None\<close>.
\<close>

definition b64_alphabet :: jsstring where
  "b64_alphabet = js ''ABCDEFGHIJKLMNOPQRSTUVWXYZabcdefghijklmnopqrstuvwxyz0123456789+/''"

definition b64_char :: "nat \<Rightarrow> 16 word" where
  "b64_char n = b64_alphabet ! n"

fun b64_encode :: "byte list \<Rightarrow> jsstring" where
  "b64_encode [] = []"
| "b64_encode [a] =
     [b64_char (unat a div 4), b64_char (unat a mod 4 * 16), 0x3D, 0x3D]"
| "b64_encode [a, b] =
     [b64_char (unat a div 4), b64_char (unat a mod 4 * 16 + unat b div 16),
      b64_char (unat b mod 16 * 4), 0x3D]"
| "b64_encode (a # b # c # rest) =
     [b64_char (unat a div 4), b64_char (unat a mod 4 * 16 + unat b div 16),
      b64_char (unat b mod 16 * 4 + unat c div 64), b64_char (unat c mod 64)]
     @ b64_encode rest"

definition btoa :: "jsstring \<Rightarrow> jsstring option" where
  "btoa s = (if list_all (\<lambda>c. c \<le> 0xFF) s then Some (b64_encode (map ucast s)) else None)"

text \<open>\<open>s.replace(/a/g, 'b')\<close> for single characters, and \<open>s.replace(/a/g, '')\<close>.\<close>

definition replace_char :: "16 word \<Rightarrow> 16 word \<Rightarrow> jsstring \<Rightarrow> jsstring" where
  "replace_char a b s = map (\<lambda>c. if c = a then b else c) s"

definition remove_char :: "16 word \<Rightarrow> jsstring \<Rightarrow> jsstring" where
  "remove_char a s = filter (\<lambda>c. c \<noteq> a) s"

text \<open>
  \<open>new TextEncoder().encode(s)\<close>: the UTF-8 bytes of the string, a surrogate pair
  giving one code point and an unpaired surrogate U+FFFD.
\<close>

definition is_high_surrogate :: "16 word \<Rightarrow> bool" where
  "is_high_surrogate c = (0xD800 \<le> c \<and> c \<le> 0xDBFF)"

definition is_low_surrogate :: "16 word \<Rightarrow> bool" where
  "is_low_surrogate c = (0xDC00 \<le> c \<and> c \<le> 0xDFFF)"

definition utf8_of_code_point :: "nat \<Rightarrow> byte list" where
  "utf8_of_code_point n =
     (if n < 0x80 then [of_nat n]
      else if n < 0x800 then [of_nat (0xC0 + n div 0x40), of_nat (0x80 + n mod 0x40)]
      else if n < 0x10000 then
        [of_nat (0xE0 + n div 0x1000), of_nat (0x80 + n div 0x40 mod 0x40),
         of_nat (0x80 + n mod 0x40)]
      else
        [of_nat (0xF0 + n div 0x40000), of_nat (0x80 + n div 0x1000 mod 0x40),
         of_nat (0x80 + n div 0x40 mod 0x40), of_nat (0x80 + n mod 0x40)])"

definition utf8_of_unit :: "16 word \<Rightarrow> byte list" where
  "utf8_of_unit c =
     (if is_high_surrogate c \<or> is_low_surrogate c then [0xEF, 0xBF, 0xBD]
      else utf8_of_code_point (unat c))"

fun TextEncoder_encode :: "jsstring \<Rightarrow> byte list" where
  "TextEncoder_encode [] = []"
| "TextEncoder_encode [c] = utf8_of_unit c"
| "TextEncoder_encode (c # d # cs) =
     (if is_high_surrogate c \<and> is_low_surrogate d
      then utf8_of_code_point (0x10000 + (unat c - 0xD800) * 0x400 + (unat d - 0xDC00))
           @ TextEncoder_encode cs
      else utf8_of_unit c @ TextEncoder_encode (d # cs))"

subsection \<open>SHA-256\<close>

text \<open>
  \<open>crypto.subtle.digest('SHA-256', data)\<close>, after FIPS 180-4: the message is padded to
  a multiple of 64 bytes, and each block updates the eight 32-bit words of the hash
  through a 64-word message schedule and 64 rounds.
\<close>

definition Ch :: "32 word \<Rightarrow> 32 word \<Rightarrow> 32 word \<Rightarrow> 32 word" where
  "Ch x y z = (x AND y) XOR (NOT x AND z)"

definition Maj :: "32 word \<Rightarrow> 32 word \<Rightarrow> 32 word \<Rightarrow> 32 word" where
  "Maj x y z = (x AND y) XOR (x AND z) XOR (y AND z)"

definition Sigma0 :: "32 word \<Rightarrow> 32 word" where
  "Sigma0 x = word_rotr 2 x XOR word_rotr 13 x XOR word_rotr 22 x"

definition Sigma1 :: "32 word \<Rightarrow> 32 word" where
  "Sigma1 x = word_rotr 6 x XOR word_rotr 11 x XOR word_rotr 25 x"

definition sigma0 :: "32 word \<Rightarrow> 32 word" where
  "sigma0 x = word_rotr 7 x XOR word_rotr 18 x XOR drop_bit 3 x"

definition sigma1 :: "32 word \<Rightarrow> 32 word" where
  "sigma1 x = word_rotr 17 x XOR word_rotr 19 x XOR drop_bit 10 x"

text \<open>
  The round constants, in decimal: the first 32 bits of the fractional parts of the cube
  roots of the first 64 primes (lemma \<open>K256_cube_roots\<close>).
\<close>

definition K256 :: "32 word list" where
  "K256 =
    [1116352408, 1899447441, 3049323471, 3921009573, 961987163, 1508970993,
     2453635748, 2870763221, 3624381080, 310598401, 607225278, 1426881987,
     1925078388, 2162078206, 2614888103, 3248222580, 3835390401, 4022224774,
     264347078, 604807628, 770255983, 1249150122, 1555081692, 1996064986,
     2554220882, 2821834349, 2952996808, 3210313671, 3336571891, 3584528711,
     113926993, 338241895, 666307205, 773529912, 1294757372, 1396182291,
     1695183700, 1986661051, 2177026350, 2456956037, 2730485921, 2820302411,
     3259730800, 3345764771, 3516065817, 3600352804, 4094571909, 275423344,
     430227734, 506948616, 659060556, 883997877, 958139571, 1322822218,
     1537002063, 1747873779, 1955562222, 2024104815, 2227730452, 2361852424,
     2428436474, 2756734187, 3204031479, 3329325298]"

type_synonym hash =
  "32 word \<times> 32 word \<times> 32 word \<times> 32 word \<times> 32 word \<times> 32 word \<times> 32 word \<times> 32 word"

text \<open>
  The initial hash value: the first 32 bits of the fractional parts of the square roots
  of the first 8 primes (lemma \<open>H256_square_roots\<close>).
\<close>

definition H256 :: hash where
  "H256 = (1779033703, 3144134277, 1013904242, 2773480762,
           1359893119, 2600822924, 528734635, 1541459225)"

definition be64_bytes :: "64 word \<Rightarrow> byte list" where
  "be64_bytes w =
     [ucast (drop_bit 56 w), ucast (drop_bit 48 w), ucast (drop_bit 40 w), ucast (drop_bit 32 w),
      ucast (drop_bit 24 w), ucast (drop_bit 16 w), ucast (drop_bit 8 w), ucast w]"

definition pad :: "byte list \<Rightarrow> byte list" where
  "pad m = m @ [0x80] @ replicate ((119 - length m mod 64) mod 64) 0
             @ be64_bytes (of_nat (8 * length m))"

fun chop :: "nat \<Rightarrow> 'a list \<Rightarrow> 'a list list" where
  "chop 0 xs = []"
| "chop (Suc n) [] = []"
| "chop (Suc n) (x # xs) = take (Suc n) (x # xs) # chop (Suc n) (drop n xs)"

definition be32 :: "byte list \<Rightarrow> 32 word" where
  "be32 bs = foldl (\<lambda>w b. push_bit 8 w OR ucast b) 0 bs"

definition bytes_of :: "32 word \<Rightarrow> byte list" where
  "bytes_of w = [ucast (drop_bit 24 w), ucast (drop_bit 16 w), ucast (drop_bit 8 w), ucast w]"

fun expand :: "nat \<Rightarrow> 32 word list \<Rightarrow> 32 word list" where
  "expand 0 w = w"
| "expand (Suc n) w =
     expand n (w @ [sigma1 (w ! (length w - 2)) + w ! (length w - 7)
                    + sigma0 (w ! (length w - 15)) + w ! (length w - 16)])"

definition schedule :: "byte list \<Rightarrow> 32 word list" where
  "schedule block = expand 48 (map be32 (chop 4 block))"

definition sha_round :: "hash \<Rightarrow> 32 word \<times> 32 word \<Rightarrow> hash" where
  "sha_round s kw =
     (case s of (a, b, c, d, e, f, g, h) \<Rightarrow>
        (let t1 = h + Sigma1 e + Ch e f g + fst kw + snd kw;
             t2 = Sigma0 a + Maj a b c
         in (t1 + t2, a, b, c, d + t1, e, f, g)))"

definition add_hash :: "hash \<Rightarrow> hash \<Rightarrow> hash" where
  "add_hash s t =
     (case s of (a, b, c, d, e, f, g, h) \<Rightarrow>
      case t of (a', b', c', d', e', f', g', h') \<Rightarrow>
        (a + a', b + b', c + c', d + d', e + e', f + f', g + g', h + h'))"

definition compress :: "hash \<Rightarrow> byte list \<Rightarrow> hash" where
  "compress s block = add_hash s (foldl sha_round s (zip K256 (schedule block)))"

definition sha256 :: "byte list \<Rightarrow> byte list" where
  "sha256 m =
     (case foldl compress H256 (chop 64 (pad m)) of
        (a, b, c, d, e, f, g, h) \<Rightarrow> concat (map bytes_of [a, b, c, d, e, f, g, h]))"

subsection \<open>generatePKCE\<close>

record pkce =
  verifier :: jsstring
  challenge :: jsstring

text \<open>
  \<open>crypto.getRandomValues\<close> is the source of randomness: \<open>random i\<close> is the byte it
  writes at index \<open>i\<close> of the 32-byte array. The result is \<open>None\<close> when a \<open>btoa\<close> throws
  (the promise is then rejected).
\<close>

definition base64url_of_base64 :: "jsstring \<Rightarrow> jsstring" where
  "base64url_of_base64 s = remove_char 0x3D (replace_char 0x2F 0x5F (replace_char 0x2B 0x2D s))"

definition generatePKCE :: "(nat \<Rightarrow> byte) \<Rightarrow> pkce option" where
  "generatePKCE random =
     (let array = map random [0..<32]
      in case btoa (fromCharCode array) of
           None \<Rightarrow> None
         | Some t \<Rightarrow>
             (let verifier0 = base64url_of_base64 t;
                  data = TextEncoder_encode verifier0;
                  buffer = sha256 data
              in case btoa (fromCharCode buffer) of
                   None \<Rightarrow> None
                 | Some u \<Rightarrow>
                     Some \<lparr>verifier = verifier0, challenge = base64url_of_base64 u\<rparr>))"

section \<open>OAuthModal.tsx: the flow\<close>

datatype accountType = Pro | Max

datatype step = Input | Code

text \<open>The component state: the eight \<open>useState\<close> cells.\<close>

record OAuthState =
  oauth_organizationUuid :: jsstring
  accountType :: accountType
  authCode :: jsstring
  loading :: bool
  oauth_error :: jsstring
  uuidError :: jsstring
  step :: step
  pkceVerifier :: jsstring

definition CLIENT_ID :: jsstring where
  "CLIENT_ID = js ''9d1c250a-e61b-44d9-88ed-5944d1962f5e''"

definition AUTHORIZE_URL :: jsstring where
  "AUTHORIZE_URL = js ''https://claude.ai/oauth/authorize''"

definition REDIRECT_URI :: jsstring where
  "REDIRECT_URI = js ''https://console.anthropic.com/oauth/code/callback''"

text \<open>The four messages of \<open>setError\<close>.\<close>

definition msg_enter_uuid :: jsstring where
  "msg_enter_uuid = js ''Organization UUID'' @ [0xB97C, 0x0020, 0xC785, 0xB825, 0xD558, 0xC138, 0xC694]"

definition msg_url_failed :: jsstring where
  "msg_url_failed = [0xC778, 0xC99D, 0x0020] @ js ''URL'' @ [0x0020, 0xC0DD, 0xC131, 0x0020, 0xC2E4, 0xD328]"

definition msg_enter_code :: jsstring where
  "msg_enter_code =
     [0xC778, 0xC99D, 0x0020, 0xCF54, 0xB4DC, 0xB97C, 0x0020, 0xC785, 0xB825, 0xD558, 0xC138, 0xC694]"

definition msg_auth_failed :: jsstring where
  "msg_auth_failed =
     [0xC778, 0xC99D, 0xC5D0, 0x0020, 0xC2E4, 0xD328, 0xD588, 0xC2B5, 0xB2C8, 0xB2E4, 0x002E,
      0x0020, 0xB2E4, 0xC2DC, 0x0020, 0xC2DC, 0xB3C4, 0xD574, 0xC8FC, 0xC138, 0xC694]"

text \<open>The body of the token-exchange request.\<close>

record exchangeData =
  organization_uuid :: jsstring
  code :: jsstring
  pkce_verifier :: jsstring
  capabilities :: "jsstring list"

text \<open>
  What a handler does besides updating the state: \<open>window.open\<close> on the authorization
  URL (given by its query parameters, in order), the call of
  \<open>accountsApi.exchangeOAuthCode\<close>, the call of \<open>onClose\<close>, and \<open>console.error\<close>.
\<close>

datatype oauth_action =
    WindowOpen "(jsstring \<times> jsstring) list"
  | ExchangeOAuthCode exchangeData
  | OnClose
  | ConsoleError

text \<open>
  \<open>formatUUID\<close> and \<open>isValidUUID\<close> come from \<open>@/utils/validators\<close>, which is not part of
  the sources at hand: they are parameters. So is the backend: \<open>exchange d\<close> tells whether
  \<open>accountsApi.exchangeOAuthCode(d)\<close> resolves.
\<close>

definition handleGenerateUrl ::
    "(jsstring \<Rightarrow> jsstring) \<Rightarrow> (nat \<Rightarrow> byte) \<Rightarrow> OAuthState \<Rightarrow> oauth_action list \<times> OAuthState" where
  "handleGenerateUrl formatUUID random st =
     (if trim (oauth_organizationUuid st) = [] then ([], st\<lparr>oauth_error := msg_enter_uuid\<rparr>)
      else
        (let st1 = st\<lparr>loading := True, oauth_error := []\<rparr>
         in case generatePKCE random of
              None \<Rightarrow> ([ConsoleError], st1\<lparr>oauth_error := msg_url_failed, loading := False\<rparr>)
            | Some p \<Rightarrow>
                (let st2 = st1\<lparr>pkceVerifier := verifier p\<rparr>;
                     params =
                       [(js ''response_type'', js ''code''),
                        (js ''client_id'', CLIENT_ID),
                        (js ''organization_uuid'', formatUUID (oauth_organizationUuid st)),
                        (js ''redirect_uri'', REDIRECT_URI),
                        (js ''scope'', js ''user:profile user:inference''),
                        (js ''state'', verifier p),
                        (js ''code_challenge'', challenge p),
                        (js ''code_challenge_method'', js ''S256'')]
                 in ([WindowOpen params], st2\<lparr>step := Code, loading := False\<rparr>))))"

text \<open>
  The tier is typed \<open>'Pro' | 'Max'\<close> and the select offers these two values, so the last
  branch of the source's conditional, \<open>['chat']\<close>, has no value to be taken on.
\<close>

definition handleExchangeToken ::
    "(jsstring \<Rightarrow> jsstring) \<Rightarrow> (exchangeData \<Rightarrow> bool) \<Rightarrow> OAuthState \<Rightarrow> oauth_action list \<times> OAuthState" where
  "handleExchangeToken formatUUID exchange st =
     (if trim (authCode st) = [] then ([], st\<lparr>oauth_error := msg_enter_code\<rparr>)
      else
        (let st1 = st\<lparr>loading := True, oauth_error := []\<rparr>;
             exchangeData0 =
               \<lparr>organization_uuid = formatUUID (oauth_organizationUuid st),
                code = authCode st,
                pkce_verifier = pkceVerifier st,
                capabilities =
                  (case accountType st of
                     Max \<Rightarrow> [js ''chat'', js ''claude_max'']
                   | Pro \<Rightarrow> [js ''chat'', js ''claude_pro''])\<rparr>
         in if exchange exchangeData0
            then ([ExchangeOAuthCode exchangeData0, OnClose], st1\<lparr>loading := False\<rparr>)
            else ([ExchangeOAuthCode exchangeData0, ConsoleError],
                  st1\<lparr>oauth_error := msg_auth_failed, loading := False\<rparr>)))"

text \<open>The \<open>disabled\<close> attribute of the two submit buttons, and the input handlers.\<close>

definition generate_disabled :: "(jsstring \<Rightarrow> jsstring) \<Rightarrow> (jsstring \<Rightarrow> bool) \<Rightarrow> OAuthState \<Rightarrow> bool" where
  "generate_disabled formatUUID isValidUUID st =
     (loading st \<or> trim (oauth_organizationUuid st) = []
      \<or> \<not> isValidUUID (formatUUID (oauth_organizationUuid st)))"

definition exchange_disabled :: "OAuthState \<Rightarrow> bool" where
  "exchange_disabled st = (loading st \<or> trim (authCode st) = [])"

definition setAuthCode :: "jsstring \<Rightarrow> OAuthState \<Rightarrow> OAuthState" where
  "setAuthCode v st = st\<lparr>authCode := v\<rparr>"

section \<open>Settings.tsx\<close>

subsection \<open>JSON values\<close>

text \<open>
  Modelled from the spec: the type declarations \<open>SettingsRead\<close> and \<open>SettingsUpdate\<close> of
  \<open>../api/types\<close> are not part of the sources at hand. The specification gives the
  settings as a flat record of lists of strings (the two key lists), strings, optional
  strings, a number and booleans; the page reads them through \<open>Object.keys\<close> and by field
  name. A settings object is therefore an ordered list of fields with distinct names, and
  a field value is \<open>null\<close>, a boolean, a number, a string or an array of strings.

  A JavaScript number is a double. The numbers of the model are the integers from
  \<open>-2\<^sup>5\<^sup>3\<close> to \<open>2\<^sup>5\<^sup>3 - 1\<close>, held as a word of 54 bits in two's complement and read by
  \<open>sint\<close>: each of them is a double exactly, and no two of them are the same double.
  Fractions, \<open>NaN\<close>, the infinities and the integers beyond that range (which
  \<open>parseInt\<close> returns, rounded to a double, for a numeral beyond it) are not values of
  the model.
\<close>

datatype jvalue = JNull | JBool bool | JNum "54 word" | JStr jsstring | JStrs "jsstring list"

type_synonym object = "(jsstring \<times> jvalue) list"

text \<open>\<open>Object.keys(o)\<close>, \<open>o[key]\<close> (\<open>None\<close> is \<open>undefined\<close>) and \<open>o[key] = v\<close>.\<close>

definition Object_keys :: "object \<Rightarrow> jsstring list" where
  "Object_keys obj = map fst obj"

definition get_field :: "object \<Rightarrow> jsstring \<Rightarrow> jvalue option" where
  "get_field obj key = map_of obj key"

fun set_field :: "jsstring \<Rightarrow> jvalue \<Rightarrow> object \<Rightarrow> object" where
  "set_field key v [] = [(key, v)]"
| "set_field key v ((k, w) # rest) =
     (if k = key then (k, v) # rest else (k, w) # set_field key v rest)"

text \<open>\<open>{...a, ...b}\<close>: the fields of \<open>b\<close> assigned onto a copy of \<open>a\<close>, in order.\<close>

definition spread :: "object \<Rightarrow> object \<Rightarrow> object" where
  "spread a b = foldl (\<lambda>obj (k, v). set_field k v obj) a b"

subsection \<open>JSON.stringify\<close>

text \<open>
  \<open>QuoteJSONString\<close>: the two-character escapes, \<open>\uXXXX\<close> in lower-case hexadecimal for
  the other code units below U+0020 and for unpaired surrogates, every other code point
  as it is.
\<close>

definition hex_digit :: "nat \<Rightarrow> 16 word" where
  "hex_digit n = (if n < 10 then of_nat (0x30 + n) else of_nat (0x57 + n))"

definition unicode_escape :: "16 word \<Rightarrow> jsstring" where
  "unicode_escape c =
     [0x5C, 0x75, hex_digit (unat c div 4096), hex_digit (unat c div 256 mod 16),
      hex_digit (unat c div 16 mod 16), hex_digit (unat c mod 16)]"

definition quote_unit :: "16 word \<Rightarrow> jsstring" where
  "quote_unit c =
     (if c = 0x08 then [0x5C, 0x62]
      else if c = 0x09 then [0x5C, 0x74]
      else if c = 0x0A then [0x5C, 0x6E]
      else if c = 0x0C then [0x5C, 0x66]
      else if c = 0x0D then [0x5C, 0x72]
      else if c = 0x22 then [0x5C, 0x22]
      else if c = 0x5C then [0x5C, 0x5C]
      else if c < 0x20 \<or> is_high_surrogate c \<or> is_low_surrogate c then unicode_escape c
      else [c])"

fun quote_units :: "jsstring \<Rightarrow> jsstring" where
  "quote_units [] = []"
| "quote_units [c] = quote_unit c"
| "quote_units (c # d # cs) =
     (if is_high_surrogate c \<and> is_low_surrogate d then c # d # quote_units cs
      else quote_unit c @ quote_units (d # cs))"

definition QuoteJSONString :: "jsstring \<Rightarrow> jsstring" where
  "QuoteJSONString s = 0x22 # quote_units s @ [0x22]"

text \<open>
  \<open>Number::toString\<close> on the numbers of the model. For a double \<open>x\<close> it takes the least
  number \<open>k\<close> of digits \<open>s\<close> such that \<open>s \<times> 10\<^sup>n\<^sup>-\<^sup>k\<close> rounds to \<open>x\<close>, and prints them as
  an integer numeral followed by \<open>n - k\<close> zeros when \<open>k \<le> n \<le> 21\<close> (in exponent form from
  \<open>10\<^sup>2\<^sup>1\<close> on). Up to \<open>2\<^sup>5\<^sup>3\<close> in magnitude the doubles are at most 1 apart, so the
  digits are those of the integer itself, which has at most 16 of them: the result is
  its decimal numeral, with a minus sign for a negative number. \<open>digits_of\<close> gives the
  numeral of a magnitude, an integer that is not negative.
\<close>

function digits_of :: "int \<Rightarrow> jsstring" where
  "digits_of i = (if i < 10 then [of_int (0x30 + i)]
                  else digits_of (i div 10) @ [of_int (0x30 + i mod 10)])"
  by pat_completeness auto
termination
  by (relation "measure nat") auto

declare digits_of.simps [simp del]

definition number_to_string :: "54 word \<Rightarrow> jsstring" where
  "number_to_string x =
     (if sint x < 0 then 0x2D # digits_of (- sint x) else digits_of (sint x))"

text \<open>The elements of an array of strings after the opening bracket.\<close>

fun array_elements :: "jsstring list \<Rightarrow> jsstring" where
  "array_elements [] = [0x5D]"
| "array_elements [x] = QuoteJSONString x @ [0x5D]"
| "array_elements (x # y # ys) = QuoteJSONString x @ 0x2C # array_elements (y # ys)"

fun JSON_stringify :: "jvalue \<Rightarrow> jsstring" where
  "JSON_stringify JNull = js ''null''"
| "JSON_stringify (JBool b) = (if b then js ''true'' else js ''false'')"
| "JSON_stringify (JNum i) = number_to_string i"
| "JSON_stringify (JStr s) = QuoteJSONString s"
| "JSON_stringify (JStrs xs) = 0x5B # array_elements xs"

text \<open>\<open>JSON.stringify(o[key])\<close>, which is \<open>undefined\<close> for a missing field.\<close>

definition stringify_field :: "object \<Rightarrow> jsstring \<Rightarrow> jsstring option" where
  "stringify_field obj key = map_option JSON_stringify (get_field obj key)"

subsection \<open>The page\<close>

datatype saveStatus = Idle | Saving | Saved | SaveError

text \<open>The component state, without the cells that only drive the display of keys.\<close>

record SettingsState =
  settings :: "object option"
  originalSettings :: "object option"
  saveStatus :: saveStatus
  newApiKey :: jsstring
  newAdminKey :: jsstring

text \<open>
  What a handler does besides updating the state: the request \<open>settingsApi.update\<close> with
  its patch, and the timer that resets the save badge. The backend is a parameter:
  \<open>update_ok changes\<close> tells whether the request resolves.
\<close>

datatype settings_action = ApiUpdate object | SetTimeout nat

text \<open>
  \<open>saveChanges\<close>. The callback reads \<open>settings\<close> as its closure captured it, which is the
  value before the \<open>setSettings\<close> of the calling handler: the argument \<open>seen\<close>.
\<close>

definition saveChanges ::
    "(object \<Rightarrow> bool) \<Rightarrow> object option \<Rightarrow> object \<Rightarrow> SettingsState \<Rightarrow> settings_action list \<times> SettingsState" where
  "saveChanges update_ok seen changes st =
     (if length (Object_keys changes) = 0 then ([], st)
      else
        (let st1 = st\<lparr>saveStatus := Saving\<rparr>
         in if update_ok changes then
              (let st2 = st1\<lparr>saveStatus := Saved\<rparr>;
                   st3 = (case (originalSettings st, seen) of
                            (Some original, Some s) \<Rightarrow>
                              st2\<lparr>originalSettings := Some (spread original changes)\<rparr>
                          | _ \<Rightarrow> st2)
               in ([ApiUpdate changes, SetTimeout 3000], st3))
            else ([ApiUpdate changes, SetTimeout 5000], st1\<lparr>saveStatus := SaveError\<rparr>)))"

text \<open>The \<open>forEach\<close> of \<open>handleFieldChange\<close>: the patch, built key by key.\<close>

definition changes_of :: "object \<Rightarrow> object \<Rightarrow> object" where
  "changes_of newSettings original =
     foldl (\<lambda>changes key.
              if stringify_field newSettings key \<noteq> stringify_field original key
              then (case get_field newSettings key of
                      Some v \<Rightarrow> set_field key v changes
                    | None \<Rightarrow> changes)
              else changes)
       [] (Object_keys newSettings)"

definition handleFieldChange ::
    "(object \<Rightarrow> bool) \<Rightarrow> object \<Rightarrow> SettingsState \<Rightarrow> settings_action list \<times> SettingsState" where
  "handleFieldChange update_ok newSettings st =
     (let st1 = st\<lparr>settings := Some newSettings\<rparr>
      in case originalSettings st of
           None \<Rightarrow> ([], st1)
         | Some original \<Rightarrow>
             (let changes = changes_of newSettings original
              in if length (Object_keys changes) > 0
                 then saveChanges update_ok (settings st) changes st1
                 else ([], st1)))"

text \<open>
  \<open>settings.api_keys\<close> and \<open>settings.admin_api_keys\<close> are typed \<open>string[]\<close>; on an object
  without such a field the handlers below throw, which is the value \<open>None\<close>.
\<close>

definition string_array :: "object \<Rightarrow> jsstring \<Rightarrow> jsstring list option" where
  "string_array obj key = (case get_field obj key of Some (JStrs xs) \<Rightarrow> Some xs | _ \<Rightarrow> None)"

definition handleAddApiKey ::
    "(object \<Rightarrow> bool) \<Rightarrow> SettingsState \<Rightarrow> (settings_action list \<times> SettingsState) option" where
  "handleAddApiKey update_ok st =
     (case settings st of
        None \<Rightarrow> Some ([], st)
      | Some s \<Rightarrow>
          if newApiKey st = [] then Some ([], st)
          else (case string_array s (js ''api_keys'') of
                  None \<Rightarrow> None
                | Some keys \<Rightarrow>
                    if newApiKey st \<in> set keys then Some ([], st)
                    else
                      (let newSettings =
                             set_field (js ''api_keys'') (JStrs (keys @ [newApiKey st])) s
                       in case handleFieldChange update_ok newSettings st of
                            (acts, st') \<Rightarrow> Some (acts, st'\<lparr>newApiKey := []\<rparr>))))"

definition handleRemoveApiKey ::
    "(object \<Rightarrow> bool) \<Rightarrow> jsstring \<Rightarrow> SettingsState \<Rightarrow> (settings_action list \<times> SettingsState) option" where
  "handleRemoveApiKey update_ok key st =
     (case settings st of
        None \<Rightarrow> Some ([], st)
      | Some s \<Rightarrow>
          (case string_array s (js ''api_keys'') of
             None \<Rightarrow> None
           | Some keys \<Rightarrow>
               Some (handleFieldChange update_ok
                       (set_field (js ''api_keys'') (JStrs (filter (\<lambda>k. k \<noteq> key) keys)) s) st)))"

definition handleAddAdminKey ::
    "(object \<Rightarrow> bool) \<Rightarrow> SettingsState \<Rightarrow> (settings_action list \<times> SettingsState) option" where
  "handleAddAdminKey update_ok st =
     (case settings st of
        None \<Rightarrow> Some ([], st)
      | Some s \<Rightarrow>
          if newAdminKey st = [] then Some ([], st)
          else (case string_array s (js ''admin_api_keys'') of
                  None \<Rightarrow> None
                | Some keys \<Rightarrow>
                    if newAdminKey st \<in> set keys then Some ([], st)
                    else
                      (let newSettings =
                             set_field (js ''admin_api_keys'') (JStrs (keys @ [newAdminKey st])) s
                       in case handleFieldChange update_ok newSettings st of
                            (acts, st') \<Rightarrow> Some (acts, st'\<lparr>newAdminKey := []\<rparr>))))"

definition handleRemoveAdminKey ::
    "(object \<Rightarrow> bool) \<Rightarrow> jsstring \<Rightarrow> SettingsState \<Rightarrow> (settings_action list \<times> SettingsState) option" where
  "handleRemoveAdminKey update_ok key st =
     (case settings st of
        None \<Rightarrow> Some ([], st)
      | Some s \<Rightarrow>
          (case string_array s (js ''admin_api_keys'') of
             None \<Rightarrow> None
           | Some keys \<Rightarrow>
               Some (handleFieldChange update_ok
                       (set_field (js ''admin_api_keys'') (JStrs (filter (\<lambda>k. k \<noteq> key) keys)) s)
                       st)))"

section \<open>Vocabulary of the statements\<close>

subsection \<open>Batch runs\<close>

text \<open>The freshly mounted batch component, with \<open>text\<close> typed into its textarea.\<close>

definition mounted :: "jsstring \<Rightarrow> BatchState" where
  "mounted text = \<lparr>cookies = text, isProcessing = False, results = [], showResults = False\<rparr>"

text \<open>The state in which the loop starts: one pending row per line.\<close>

definition started :: "BatchState \<Rightarrow> BatchState" where
  "started st = st\<lparr>isProcessing := True, showResults := True,
                    results := initialResults (cookieLines_of (cookies st))\<rparr>"

text \<open>The three-line batch of the specification, and a backend that accepts every cookie.\<close>

definition example_batch :: jsstring where
  "example_batch =
     js ''sk-ant-sid01-aaa'' @ [LF] @ js ''garbage'' @ [LF] @ js ''sessionKey=sk-ant-sid01-bbb''"

definition accept_all :: "unit backend" where
  "accept_all b c = (Created (js ''org''), b)"

text \<open>The status a backend answer leads to.\<close>

definition outcome :: "create_response \<Rightarrow> status" where
  "outcome response = (case response of Created uuid \<Rightarrow> Success | Rejected m \<Rightarrow> Error)"

text \<open>
  What one line contributes to a run, stated without the component state: its actions,
  the backend state it leaves, and its final row.
\<close>

definition line_actions :: "'b backend \<Rightarrow> nat \<Rightarrow> jsstring \<Rightarrow> 'b \<Rightarrow> action list" where
  "line_actions create i line b =
     (let v = validateAndProcessCookie line
      in if isValid v
         then [SetRow i Processing, AwaitCreate (processedValue v),
               SetRow i (outcome (fst (create b (processedValue v)))), AwaitTimeout 300]
         else [SetRow i Processing, SetRow i Error])"

definition line_backend :: "'b backend \<Rightarrow> jsstring \<Rightarrow> 'b \<Rightarrow> 'b" where
  "line_backend create line b =
     (let v = validateAndProcessCookie line
      in if isValid v then snd (create b (processedValue v)) else b)"

definition line_row :: "'b backend \<Rightarrow> jsstring \<Rightarrow> 'b \<Rightarrow> CookieResult" where
  "line_row create line b =
     (let v = validateAndProcessCookie line
      in if isValid v
         then (case fst (create b (processedValue v)) of
                 Created uuid \<Rightarrow>
                   \<lparr>cookie = line, status = Success, error = None, organizationUuid = Some uuid\<rparr>
               | Rejected m \<Rightarrow>
                   \<lparr>cookie = line, status = Error, error = Some (errorMessage m),
                    organizationUuid = None\<rparr>)
         else \<lparr>cookie = line, status = Error, error = Some msg_invalid_format,
               organizationUuid = None\<rparr>)"

fun run_actions :: "'b backend \<Rightarrow> nat \<Rightarrow> jsstring list \<Rightarrow> 'b \<Rightarrow> action list" where
  "run_actions create i [] b = []"
| "run_actions create i (line # rest) b =
     line_actions create i line b @ run_actions create (Suc i) rest (line_backend create line b)"

fun run_rows :: "'b backend \<Rightarrow> jsstring list \<Rightarrow> 'b \<Rightarrow> CookieResult list" where
  "run_rows create [] b = []"
| "run_rows create (line # rest) b =
     line_row create line b # run_rows create rest (line_backend create line b)"

text \<open>
  One step of a row's status: unchanged, from pending to processing, or from processing
  to success or error. \<open>rows_advance\<close> compares two successive values of \<open>results\<close> row
  by row.
\<close>

definition status_step :: "status \<Rightarrow> status \<Rightarrow> bool" where
  "status_step a b =
     (a = b \<or> (a = Pending \<and> b = Processing) \<or> (a = Processing \<and> (b = Success \<or> b = Error)))"

definition rows_advance :: "CookieResult list \<Rightarrow> CookieResult list \<Rightarrow> bool" where
  "rows_advance rs rs' = list_all2 (\<lambda>r r'. status_step (status r) (status r')) rs rs'"

definition settled :: "CookieResult \<Rightarrow> bool" where
  "settled r = (status r = Success \<or> status r = Error)"

definition history :: "BatchState \<Rightarrow> trace \<Rightarrow> CookieResult list list" where
  "history st tr = map results (st # map snd tr)"

definition final_state :: "BatchState \<Rightarrow> trace \<Rightarrow> BatchState" where
  "final_state st tr = (if tr = [] then st else snd (last tr))"

definition pending_from :: "nat \<Rightarrow> BatchState \<Rightarrow> bool" where
  "pending_from i st =
     (\<forall>j. i \<le> j \<longrightarrow> j < length (results st) \<longrightarrow> status (results st ! j) = Pending)"

subsection \<open>PKCE\<close>

text \<open>
  The base64url encoding without padding, stated on its own after RFC 4648, section 5:
  the alphabet ends in \<open>-\<close> and \<open>_\<close>, and the last group of one or two bytes gives two
  or three characters and no \<open>=\<close>.
\<close>

definition b64url_alphabet :: jsstring where
  "b64url_alphabet = js ''ABCDEFGHIJKLMNOPQRSTUVWXYZabcdefghijklmnopqrstuvwxyz0123456789-_''"

definition b64url_char :: "nat \<Rightarrow> 16 word" where
  "b64url_char n = b64url_alphabet ! n"

fun rfc4648_base64url :: "byte list \<Rightarrow> jsstring" where
  "rfc4648_base64url [] = []"
| "rfc4648_base64url [a] =
     [b64url_char (unat a div 4), b64url_char (unat a mod 4 * 16)]"
| "rfc4648_base64url [a, b] =
     [b64url_char (unat a div 4), b64url_char (unat a mod 4 * 16 + unat b div 16),
      b64url_char (unat b mod 16 * 4)]"
| "rfc4648_base64url (a # b # c # rest) =
     [b64url_char (unat a div 4), b64url_char (unat a mod 4 * 16 + unat b div 16),
      b64url_char (unat b mod 16 * 4 + unat c div 64), b64url_char (unat c mod 64)]
     @ rfc4648_base64url rest"

text \<open>
  \<open>root_bits k p w\<close>: the word \<open>w\<close> holds the first 32 bits of the fractional part of
  the \<open>k\<close>-th root of \<open>p\<close>, for a root below 8.
\<close>

definition root_bits :: "nat \<Rightarrow> nat \<Rightarrow> 32 word \<Rightarrow> bool" where
  "root_bits k p w =
     list_ex (\<lambda>r. (r * 2 ^ 32 + unat w) ^ k \<le> p * 2 ^ (32 * k)
                  \<and> p * 2 ^ (32 * k) < (r * 2 ^ 32 + unat w + 1) ^ k)
       [0, 1, 2, 3, 4, 5, 6, 7]"

text \<open>A character other than \<open>+\<close>, \<open>/\<close> and \<open>=\<close>.\<close>

definition url_safe :: "16 word \<Rightarrow> bool" where
  "url_safe c = (c \<noteq> 0x2B \<and> c \<noteq> 0x2F \<and> c \<noteq> 0x3D)"

text \<open>The 32 bytes \<open>crypto.getRandomValues\<close> writes.\<close>

definition random_bytes :: "(nat \<Rightarrow> byte) \<Rightarrow> byte list" where
  "random_bytes random = map random [0..<32]"

subsection \<open>OAuth\<close>

text \<open>The capability set the specification gives for a tier.\<close>

definition tier_capabilities :: "accountType \<Rightarrow> jsstring list" where
  "tier_capabilities t =
     (case t of Pro \<Rightarrow> [js ''chat'', js ''claude_pro''] | Max \<Rightarrow> [js ''chat'', js ''claude_max''])"

text \<open>
  The freshly mounted OAuth component after the organisation identifier has been typed
  and the tier selected.
\<close>

definition oauth_mounted :: "jsstring \<Rightarrow> accountType \<Rightarrow> OAuthState" where
  "oauth_mounted org tier =
     \<lparr>oauth_organizationUuid = org, accountType = tier, authCode = [], loading = False,
      oauth_error = [], uuidError = [], step = Input, pkceVerifier = []\<rparr>"

subsection \<open>Settings\<close>

text \<open>Reading back a quoted string: the units up to the closing quote, and what follows it.\<close>

definition unhex_digit :: "16 word \<Rightarrow> nat" where
  "unhex_digit h = (if unat h < 0x3A then unat h - 0x30 else unat h - 0x57)"

definition unhex4 :: "16 word \<Rightarrow> 16 word \<Rightarrow> 16 word \<Rightarrow> 16 word \<Rightarrow> 16 word" where
  "unhex4 h1 h2 h3 h4 =
     of_nat (((unhex_digit h1 * 16 + unhex_digit h2) * 16 + unhex_digit h3) * 16 + unhex_digit h4)"

definition unescape :: "16 word \<Rightarrow> 16 word" where
  "unescape e =
     (if e = 0x62 then 0x08 else if e = 0x74 then 0x09 else if e = 0x6E then 0x0A
      else if e = 0x66 then 0x0C else if e = 0x72 then 0x0D else e)"

fun unquote_units :: "jsstring \<Rightarrow> (jsstring \<times> jsstring) option" where
  "unquote_units [] = None"
| "unquote_units (c # cs) =
     (if c = 0x22 then Some ([], cs)
      else if c = 0x5C then
        (case cs of
           [] \<Rightarrow> None
         | e # es \<Rightarrow>
             if e = 0x75 then
               (case es of
                  h1 # h2 # h3 # h4 # rest \<Rightarrow>
                    map_option (\<lambda>(s, r). (unhex4 h1 h2 h3 h4 # s, r)) (unquote_units rest)
                | _ \<Rightarrow> None)
             else map_option (\<lambda>(s, r). (unescape e # s, r)) (unquote_units es))
      else map_option (\<lambda>(s, r). (c # s, r)) (unquote_units cs))"

text \<open>Reading back the digits of a number.\<close>

definition read_digits :: "jsstring \<Rightarrow> nat" where
  "read_digits s = foldl (\<lambda>a d. 10 * a + (unat d - 0x30)) 0 s"

text \<open>The patches of the update requests among the actions of a handler.\<close>

definition patches_sent :: "settings_action list \<Rightarrow> object list" where
  "patches_sent acts = concat (map (\<lambda>a. case a of ApiUpdate p \<Rightarrow> [p] | SetTimeout ms \<Rightarrow> []) acts)"

text \<open>The fields of an object whose value differs from the same field of the baseline.\<close>

definition differing :: "object \<Rightarrow> object \<Rightarrow> object" where
  "differing newSettings original =
     filter (\<lambda>(k, v). get_field original k \<noteq> Some v) newSettings"

text \<open>
  An example of loaded settings, and the page showing them with a key typed into the
  add-API-key input.
\<close>

definition example_settings :: object where
  "example_settings =
     [(js ''api_keys'', JStrs [js ''sk-one'']),
      (js ''admin_api_keys'', JStrs []),
      (js ''claude_ai_url'', JStr (js ''https://claude.ai'')),
      (js ''proxy_url'', JNull),
      (js ''padtxt_length'', JNum 0),
      (js ''use_real_roles'', JBool True)]"

definition example_settings_state :: SettingsState where
  "example_settings_state =
     \<lparr>settings = Some example_settings, originalSettings = Some example_settings,
      saveStatus = Idle, newApiKey = js ''sk-two'', newAdminKey = []\<rparr>"

section \<open>Cookie normalisation and validation\<close>

lemma js_append: "js (a @ b) = js a @ js b"
  by (simp add: js_def)

lemma startsWith_append: "startsWith s p \<Longrightarrow> startsWith (q @ s) (q @ p)"
  by (simp add: startsWith_def)

lemma sessionKey_prefix_split:
  "js ''sessionKey=sk-ant-sid01-'' = js ''sessionKey='' @ js ''sk-ant-sid01-''"
  by (simp add: js_def)

text \<open>
  C3. For every cookie input \<open>s\<close>: when \<open>trim s\<close> starts with \<open>sk-ant-sid01-\<close> the
  normalised value is \<open>sessionKey=\<close> followed by \<open>trim s\<close> and validation is true;
  otherwise the normalised value is \<open>trim s\<close> and validation is true exactly when it
  starts with \<open>sessionKey=sk-ant-sid01-\<close>. In both cases validation is the prefix test on
  the normalised value, and the copy in the single-account form is the same function.
\<close>

theorem validateAndProcessCookie_spec:
  "validateAndProcessCookie s =
     (if startsWith (trim s) (js ''sk-ant-sid01-'')
      then \<lparr>isValid = True, processedValue = js ''sessionKey='' @ trim s\<rparr>
      else \<lparr>isValid = startsWith (trim s) (js ''sessionKey=sk-ant-sid01-''),
             processedValue = trim s\<rparr>)
   \<and> isValid (validateAndProcessCookie s) =
       startsWith (processedValue (validateAndProcessCookie s)) (js ''sessionKey=sk-ant-sid01-'')
   \<and> AccountModal_validateAndProcessCookie s = validateAndProcessCookie s"
proof -
  have "startsWith (js ''sessionKey='' @ trim s) (js ''sessionKey=sk-ant-sid01-'')"
    if "startsWith (trim s) (js ''sk-ant-sid01-'')"
    using that startsWith_append [of "trim s" "js ''sk-ant-sid01-''" "js ''sessionKey=''"]
    by (simp only: sessionKey_prefix_split)
  then show ?thesis
    by (simp add: validateAndProcessCookie_def AccountModal_validateAndProcessCookie_def Let_def)
qed


section \<open>The batch loop\<close>

subsection \<open>One line\<close>

lemma process_line_actions:
  "map fst (fst (process_line create i line b st)) = line_actions create i line b"
  by (simp add: process_line_def line_actions_def outcome_def Let_def
      split: prod.splits create_response.splits)

lemma process_line_backend:
  "fst (snd (process_line create i line b st)) = line_backend create line b"
  by (simp add: process_line_def line_backend_def Let_def
      split: prod.splits create_response.splits)

lemma process_line_row:
  assumes "i < length (results st)"
    and "results st ! i = \<lparr>cookie = line, status = Pending, error = None, organizationUuid = None\<rparr>"
  shows "results (snd (snd (process_line create i line b st))) =
           (results st)[i := line_row create line b]"
  using assms
  by (simp add: process_line_def line_row_def Let_def set_row_def
      mark_processing_def mark_error_def mark_success_def
      split: prod.splits create_response.splits)

lemma process_line_final:
  "process_line create i line b st = (tr, b', st') \<Longrightarrow> tr \<noteq> [] \<and> snd (last tr) = st'"
  by (auto simp: process_line_def Let_def split: prod.splits if_splits create_response.splits)

lemma rows_advance_refl: "rows_advance rs rs"
  by (simp add: rows_advance_def status_step_def list_all2_same)

lemma rows_advance_update:
  "i < length rs \<Longrightarrow> status_step (status (rs ! i)) (status r') \<Longrightarrow>
     rows_advance rs (rs[i := r'])"
  by (auto simp: rows_advance_def list_all2_conv_all_nth nth_list_update status_step_def)

lemma rows_advance_update2:
  "i < length rs \<Longrightarrow> status_step (status a) (status c) \<Longrightarrow>
     rows_advance (rs[i := a]) (rs[i := c])"
  by (auto simp: rows_advance_def list_all2_conv_all_nth nth_list_update status_step_def)

lemma process_line_history:
  assumes "process_line create i line b st = (tr, b', st')"
    and "i < length (results st)" and "status (results st ! i) = Pending"
  shows "successively rows_advance (history st tr)"
  using assms
  by (auto simp: process_line_def Let_def history_def set_row_def rows_advance_refl
      mark_processing_def mark_error_def mark_success_def status_step_def
      intro!: rows_advance_update rows_advance_update2
      split: prod.splits if_splits create_response.splits)

lemma process_line_results:
  assumes "process_line create i line b st = (tr, b', st')"
    and "i < length (results st)"
  shows "\<exists>r'. results st' = (results st)[i := r']"
  using assms
  by (auto simp: process_line_def Let_def set_row_def
      split: prod.splits if_splits create_response.splits)

lemma process_line_flags:
  assumes "process_line create i line b st = (tr, b', st')" and "s \<in> set (map snd tr)"
  shows "isProcessing s = isProcessing st \<and> showResults s = showResults st
    \<and> cookies s = cookies st"
  using assms
  by (auto simp: process_line_def Let_def split: prod.splits if_splits create_response.splits)

lemma process_line_pending_from:
  assumes "process_line create i line b st = (tr, b', st')"
    and "i < length (results st)" and "pending_from i st"
  shows "pending_from (Suc i) st'" and "length (results st') = length (results st)"
  using process_line_results [OF assms(1,2)] assms(3)
  by (auto simp: pending_from_def)

subsection \<open>The loop\<close>

lemma process_lines_ConsE:
  assumes "process_lines create i (line # rest) b st = (tr, b', st')"
  obtains tr1 b1 st1 tr2 where "process_line create i line b st = (tr1, b1, st1)"
    and "process_lines create (Suc i) rest b1 st1 = (tr2, b', st')" and "tr = tr1 @ tr2"
  using assms by (auto split: prod.splits)

lemma successively_glue:
  "xs \<noteq> [] \<Longrightarrow> successively P xs \<Longrightarrow> successively P (last xs # ys) \<Longrightarrow>
     successively P (xs @ ys)"
  by (cases ys) (auto simp: successively_append_iff successively_Cons)

lemma process_lines_actions:
  "process_lines create i lines b st = (tr, b', st') \<Longrightarrow> map fst tr = run_actions create i lines b"
proof (induction lines arbitrary: i b st tr)
  case Nil
  then show ?case by simp
next
  case (Cons line rest)
  from Cons.prems obtain tr1 b1 st1 tr2 where
    l: "process_line create i line b st = (tr1, b1, st1)" and
    r: "process_lines create (Suc i) rest b1 st1 = (tr2, b', st')" and t: "tr = tr1 @ tr2"
    by (rule process_lines_ConsE)
  have "map fst tr1 = line_actions create i line b"
    using process_line_actions [of create i line b st] l by simp
  moreover have "b1 = line_backend create line b"
    using process_line_backend [of create i line b st] l by simp
  ultimately show ?case
    using Cons.IH [OF r] t by simp
qed

lemma process_lines_outcome:
  assumes "process_lines create i lines b st = (tr, b', st')"
    and "results st = done @ initialResults lines" and "length done = i"
  shows "results st' = done @ run_rows create lines b"
  using assms
proof (induction lines arbitrary: i b st tr "done")
  case Nil
  then show ?case by (simp add: initialResults_def)
next
  case (Cons line rest)
  from Cons.prems(1) obtain tr1 b1 st1 tr2 where
    l: "process_line create i line b st = (tr1, b1, st1)" and
    r: "process_lines create (Suc i) rest b1 st1 = (tr2, b', st')" and t: "tr = tr1 @ tr2"
    by (rule process_lines_ConsE)
  have i: "i < length (results st)"
    and p: "results st ! i =
      \<lparr>cookie = line, status = Pending, error = None, organizationUuid = None\<rparr>"
    using Cons.prems(2,3) by (simp_all add: initialResults_def nth_append)
  have b1: "b1 = line_backend create line b"
    using process_line_backend [of create i line b st] l by simp
  have "results st1 = (results st)[i := line_row create line b]"
    using process_line_row [OF i p, of create b] l by simp
  also have "\<dots> = (done @ [line_row create line b]) @ initialResults rest"
    using Cons.prems(2,3) by (simp add: initialResults_def list_update_append)
  finally have "results st' = (done @ [line_row create line b]) @ run_rows create rest b1"
    using Cons.IH [OF r] Cons.prems(3) by simp
  then show ?case
    by (simp add: b1)
qed

lemma process_lines_final:
  "process_lines create i lines b st = (tr, b', st') \<Longrightarrow> st' = final_state st tr"
proof (induction lines arbitrary: i b st tr)
  case Nil
  then show ?case by (simp add: final_state_def)
next
  case (Cons line rest)
  from Cons.prems obtain tr1 b1 st1 tr2 where
    l: "process_line create i line b st = (tr1, b1, st1)" and
    r: "process_lines create (Suc i) rest b1 st1 = (tr2, b', st')" and t: "tr = tr1 @ tr2"
    by (rule process_lines_ConsE)
  from process_line_final [OF l] have "tr1 \<noteq> []" "snd (last tr1) = st1" by simp_all
  with Cons.IH [OF r] t show ?case
    by (simp add: final_state_def)
qed

lemma process_lines_history:
  assumes "process_lines create i lines b st = (tr, b', st')"
    and "i + length lines \<le> length (results st)" and "pending_from i st"
  shows "successively rows_advance (history st tr)"
  using assms
proof (induction lines arbitrary: i b st tr)
  case Nil
  then show ?case by (simp add: history_def)
next
  case (Cons line rest)
  from Cons.prems(1) obtain tr1 b1 st1 tr2 where
    l: "process_line create i line b st = (tr1, b1, st1)" and
    r: "process_lines create (Suc i) rest b1 st1 = (tr2, b', st')" and t: "tr = tr1 @ tr2"
    by (rule process_lines_ConsE)
  have i: "i < length (results st)"
    using Cons.prems(2) by simp
  then have p: "status (results st ! i) = Pending"
    using Cons.prems(3) by (simp add: pending_from_def)
  have h1: "successively rows_advance (history st tr1)"
    by (rule process_line_history [OF l i p])
  have n: "pending_from (Suc i) st1" "length (results st1) = length (results st)"
    using process_line_pending_from [OF l i Cons.prems(3)] by simp_all
  have h2: "successively rows_advance (history st1 tr2)"
    using Cons.IH [OF r] n Cons.prems(2) by simp
  from process_line_final [OF l] have f: "tr1 \<noteq> []" "snd (last tr1) = st1" by simp_all
  have "last (history st tr1) = results st1"
    using f by (simp add: history_def last_map)
  then have "successively rows_advance (history st tr1 @ map results (map snd tr2))"
    using h1 h2 by (intro successively_glue) (simp_all add: history_def)
  then show ?case
    by (simp add: t history_def)
qed

lemma process_lines_flags:
  assumes "process_lines create i lines b st = (tr, b', st')" and "s \<in> set (map snd tr)"
  shows "isProcessing s = isProcessing st \<and> showResults s = showResults st
    \<and> cookies s = cookies st"
  using assms
proof (induction lines arbitrary: i b st tr)
  case Nil
  then show ?case by simp
next
  case (Cons line rest)
  from Cons.prems(1) obtain tr1 b1 st1 tr2 where
    l: "process_line create i line b st = (tr1, b1, st1)" and
    r: "process_lines create (Suc i) rest b1 st1 = (tr2, b', st')" and t: "tr = tr1 @ tr2"
    by (rule process_lines_ConsE)
  from process_line_final [OF l] have f: "tr1 \<noteq> []" "snd (last tr1) = st1" by simp_all
  then have "st1 \<in> set (map snd tr1)"
    by (metis last_in_set last_map map_is_Nil_conv)
  then have s1: "isProcessing st1 = isProcessing st \<and> showResults st1 = showResults st
    \<and> cookies st1 = cookies st"
    by (rule process_line_flags [OF l])
  from Cons.prems(2) t consider "s \<in> set (map snd tr1)" | "s \<in> set (map snd tr2)"
    by auto
  then show ?case
  proof cases
    case 1
    then show ?thesis by (rule process_line_flags [OF l])
  next
    case 2
    with Cons.IH [OF r] s1 show ?thesis by simp
  qed
qed

lemma run_rows_cookie: "map cookie (run_rows create lines b) = lines"
  by (induction lines arbitrary: b)
    (simp_all add: line_row_def Let_def split: create_response.splits)

lemma run_rows_settled: "list_all settled (run_rows create lines b)"
  by (induction lines arbitrary: b)
    (simp_all add: line_row_def settled_def Let_def split: create_response.splits)

subsection \<open>A whole run\<close>

lemma handleSubmit_empty:
  "cookieLines_of (cookies st) = [] \<Longrightarrow> handleSubmit create b st = ([], b, st)"
  by (simp add: handleSubmit_def)

lemma handleSubmit_run:
  assumes "cookieLines_of (cookies st) \<noteq> []"
  obtains tr2 b' st4 where
    "process_lines create 0 (cookieLines_of (cookies st)) b (started st) = (tr2, b', st4)"
    and "handleSubmit create b st =
      ([(SetIsProcessing True, st\<lparr>isProcessing := True\<rparr>),
        (SetShowResults True, st\<lparr>isProcessing := True, showResults := True\<rparr>),
        (SetResults, started st)] @ tr2 @ [(SetIsProcessing False, st4\<lparr>isProcessing := False\<rparr>)],
       b', st4\<lparr>isProcessing := False\<rparr>)"
proof -
  obtain tr2 b' st4 where
    p: "process_lines create 0 (cookieLines_of (cookies st)) b (started st) = (tr2, b', st4)"
    by (cases "process_lines create 0 (cookieLines_of (cookies st)) b (started st)") auto
  have "st\<lparr>isProcessing := True, showResults := True,
          results := initialResults (cookieLines_of (cookies st))\<rparr> = started st"
    by (simp add: started_def)
  with p assms have "handleSubmit create b st =
      ([(SetIsProcessing True, st\<lparr>isProcessing := True\<rparr>),
        (SetShowResults True, st\<lparr>isProcessing := True, showResults := True\<rparr>),
        (SetResults, started st)] @ tr2 @ [(SetIsProcessing False, st4\<lparr>isProcessing := False\<rparr>)],
       b', st4\<lparr>isProcessing := False\<rparr>)"
    by (simp add: handleSubmit_def Let_def)
  with p show thesis by (rule that)
qed

lemma started_props:
  "length (results (started st)) = length (cookieLines_of (cookies st))"
  "pending_from 0 (started st)"
  "isProcessing (started st)"
  by (simp_all add: started_def initialResults_def pending_from_def)

lemma started_results:
  "results (started st) = [] @ initialResults (cookieLines_of (cookies st))"
  by (simp add: started_def)

lemma handleSubmit_actions:
  "map fst (fst (handleSubmit create b st)) =
     (if cookieLines_of (cookies st) = [] then []
      else [SetIsProcessing True, SetShowResults True, SetResults]
           @ run_actions create 0 (cookieLines_of (cookies st)) b @ [SetIsProcessing False])"
proof (cases "cookieLines_of (cookies st) = []")
  case True
  then show ?thesis by (simp add: handleSubmit_empty)
next
  case False
  then obtain tr2 b' st4 where
    p: "process_lines create 0 (cookieLines_of (cookies st)) b (started st) = (tr2, b', st4)"
    and h: "handleSubmit create b st =
      ([(SetIsProcessing True, st\<lparr>isProcessing := True\<rparr>),
        (SetShowResults True, st\<lparr>isProcessing := True, showResults := True\<rparr>),
        (SetResults, started st)] @ tr2 @ [(SetIsProcessing False, st4\<lparr>isProcessing := False\<rparr>)],
       b', st4\<lparr>isProcessing := False\<rparr>)"
    by (rule handleSubmit_run)
  have "map fst tr2 = run_actions create 0 (cookieLines_of (cookies st)) b"
    using p by (rule process_lines_actions)
  with False show ?thesis by (simp add: h)
qed

lemma handleSubmit_results:
  assumes "cookieLines_of (cookies st) \<noteq> []"
  shows "results (snd (snd (handleSubmit create b st))) =
           run_rows create (cookieLines_of (cookies st)) b"
proof -
  from assms obtain tr2 b' st4 where
    p: "process_lines create 0 (cookieLines_of (cookies st)) b (started st) = (tr2, b', st4)"
    and h: "handleSubmit create b st =
      ([(SetIsProcessing True, st\<lparr>isProcessing := True\<rparr>),
        (SetShowResults True, st\<lparr>isProcessing := True, showResults := True\<rparr>),
        (SetResults, started st)] @ tr2 @ [(SetIsProcessing False, st4\<lparr>isProcessing := False\<rparr>)],
       b', st4\<lparr>isProcessing := False\<rparr>)"
    by (rule handleSubmit_run)
  have "results st4 = [] @ run_rows create (cookieLines_of (cookies st)) b"
    using p by (rule process_lines_outcome) (simp_all add: started_results)
  then show ?thesis by (simp add: h)
qed


subsection \<open>The three-line batch\<close>

lemma cookieLines_example:
  "cookieLines_of example_batch =
     [js ''sk-ant-sid01-aaa'', js ''garbage'', js ''sessionKey=sk-ant-sid01-bbb'']"
  by (simp add: cookieLines_of_def example_batch_def js_def trim_def is_ws_def LF_def)

lemma validate_aaa:
  "validateAndProcessCookie (js ''sk-ant-sid01-aaa'') =
     \<lparr>isValid = True, processedValue = js ''sessionKey=sk-ant-sid01-aaa''\<rparr>"
  by (simp add: validateAndProcessCookie_def js_def trim_def is_ws_def startsWith_def)

lemma validate_garbage:
  "validateAndProcessCookie (js ''garbage'') =
     \<lparr>isValid = False, processedValue = js ''garbage''\<rparr>"
  by (simp add: validateAndProcessCookie_def js_def trim_def is_ws_def startsWith_def)

lemma validate_bbb:
  "validateAndProcessCookie (js ''sessionKey=sk-ant-sid01-bbb'') =
     \<lparr>isValid = True, processedValue = js ''sessionKey=sk-ant-sid01-bbb''\<rparr>"
  by (simp add: validateAndProcessCookie_def js_def trim_def is_ws_def startsWith_def)

lemma example_run_actions:
  "run_actions create 0
     [js ''sk-ant-sid01-aaa'', js ''garbage'', js ''sessionKey=sk-ant-sid01-bbb''] b =
   [SetRow 0 Processing, AwaitCreate (js ''sessionKey=sk-ant-sid01-aaa''),
    SetRow 0 (outcome (fst (create b (js ''sessionKey=sk-ant-sid01-aaa'')))),
    AwaitTimeout 300,
    SetRow 1 Processing, SetRow 1 Error,
    SetRow 2 Processing, AwaitCreate (js ''sessionKey=sk-ant-sid01-bbb''),
    SetRow 2 (outcome (fst (create (snd (create b (js ''sessionKey=sk-ant-sid01-aaa'')))
                                   (js ''sessionKey=sk-ant-sid01-bbb'')))),
    AwaitTimeout 300]"
  by (simp add: line_actions_def line_backend_def validate_aaa validate_garbage validate_bbb
      Let_def numeral_2_eq_2)

lemma example_run_rows:
  "map status (run_rows create
     [js ''sk-ant-sid01-aaa'', js ''garbage'', js ''sessionKey=sk-ant-sid01-bbb''] b) =
   [outcome (fst (create b (js ''sessionKey=sk-ant-sid01-aaa''))), Error,
    outcome (fst (create (snd (create b (js ''sessionKey=sk-ant-sid01-aaa'')))
                         (js ''sessionKey=sk-ant-sid01-bbb'')))]
   \<and> run_rows create
     [js ''sk-ant-sid01-aaa'', js ''garbage'', js ''sessionKey=sk-ant-sid01-bbb''] b ! 1 =
     \<lparr>cookie = js ''garbage'', status = Error, error = Some msg_invalid_format,
      organizationUuid = None\<rparr>"
  by (simp add: line_row_def line_backend_def validate_aaa validate_garbage validate_bbb
      Let_def outcome_def split: create_response.splits)

text \<open>
  C1, as the code has it. For the batch of the three lines \<open>sk-ant-sid01-aaa\<close>,
  \<open>garbage\<close> and \<open>sessionKey=sk-ant-sid01-bbb\<close>, whatever the backend answers and
  whatever the component state before: the lines are processed in input order; lines 1
  and 3 are submitted once each, normalised, and line 2 is not submitted; the second row
  ends as an error with the fixed invalid-format message; the 300 ms pause follows each
  of the two submissions and nothing else, so no pause stands between recording the
  failure of line 2 and starting line 3. The rows of lines 1 and 3 end as the backend
  answers; when it accepts both, the second row is the only error.
\<close>

theorem example_batch_run:
  "map fst (fst (handleSubmit create b (st\<lparr>cookies := example_batch\<rparr>))) =
     [SetIsProcessing True, SetShowResults True, SetResults,
      SetRow 0 Processing, AwaitCreate (js ''sessionKey=sk-ant-sid01-aaa''),
      SetRow 0 (outcome (fst (create b (js ''sessionKey=sk-ant-sid01-aaa'')))),
      AwaitTimeout 300,
      SetRow 1 Processing, SetRow 1 Error,
      SetRow 2 Processing, AwaitCreate (js ''sessionKey=sk-ant-sid01-bbb''),
      SetRow 2 (outcome (fst (create (snd (create b (js ''sessionKey=sk-ant-sid01-aaa'')))
                                     (js ''sessionKey=sk-ant-sid01-bbb'')))),
      AwaitTimeout 300,
      SetIsProcessing False]
   \<and> map cookie (results (snd (snd (handleSubmit create b (st\<lparr>cookies := example_batch\<rparr>))))) =
       [js ''sk-ant-sid01-aaa'', js ''garbage'', js ''sessionKey=sk-ant-sid01-bbb'']
   \<and> map status (results (snd (snd (handleSubmit create b (st\<lparr>cookies := example_batch\<rparr>))))) =
       [outcome (fst (create b (js ''sessionKey=sk-ant-sid01-aaa''))), Error,
        outcome (fst (create (snd (create b (js ''sessionKey=sk-ant-sid01-aaa'')))
                             (js ''sessionKey=sk-ant-sid01-bbb'')))]
   \<and> results (snd (snd (handleSubmit create b (st\<lparr>cookies := example_batch\<rparr>)))) ! 1 =
       \<lparr>cookie = js ''garbage'', status = Error, error = Some msg_invalid_format,
        organizationUuid = None\<rparr>
   \<and> map status (results (snd (snd (handleSubmit accept_all () (mounted example_batch))))) =
       [Success, Error, Success]"
proof -
  have ne: "cookieLines_of (cookies (st\<lparr>cookies := example_batch\<rparr>)) \<noteq> []"
    and ne': "cookieLines_of (cookies (mounted example_batch)) \<noteq> []"
    by (simp_all add: cookieLines_example mounted_def)
  have "map fst (fst (handleSubmit create b (st\<lparr>cookies := example_batch\<rparr>))) =
     [SetIsProcessing True, SetShowResults True, SetResults,
      SetRow 0 Processing, AwaitCreate (js ''sessionKey=sk-ant-sid01-aaa''),
      SetRow 0 (outcome (fst (create b (js ''sessionKey=sk-ant-sid01-aaa'')))),
      AwaitTimeout 300,
      SetRow 1 Processing, SetRow 1 Error,
      SetRow 2 Processing, AwaitCreate (js ''sessionKey=sk-ant-sid01-bbb''),
      SetRow 2 (outcome (fst (create (snd (create b (js ''sessionKey=sk-ant-sid01-aaa'')))
                                     (js ''sessionKey=sk-ant-sid01-bbb'')))),
      AwaitTimeout 300,
      SetIsProcessing False]"
    by (simp only: handleSubmit_actions) (simp add: cookieLines_example example_run_actions del: run_actions.simps)
  moreover have "map cookie (results (snd (snd (handleSubmit create b (st\<lparr>cookies := example_batch\<rparr>))))) =
       [js ''sk-ant-sid01-aaa'', js ''garbage'', js ''sessionKey=sk-ant-sid01-bbb'']"
    by (simp only: handleSubmit_results [OF ne] run_rows_cookie) (simp add: cookieLines_example)
  moreover have "map status (results (snd (snd (handleSubmit create b (st\<lparr>cookies := example_batch\<rparr>))))) =
       [outcome (fst (create b (js ''sessionKey=sk-ant-sid01-aaa''))), Error,
        outcome (fst (create (snd (create b (js ''sessionKey=sk-ant-sid01-aaa'')))
                             (js ''sessionKey=sk-ant-sid01-bbb'')))]"
    using example_run_rows [of create b]
    by (simp only: handleSubmit_results [OF ne]) (simp add: cookieLines_example del: run_rows.simps)
  moreover have "results (snd (snd (handleSubmit create b (st\<lparr>cookies := example_batch\<rparr>)))) ! 1 =
       \<lparr>cookie = js ''garbage'', status = Error, error = Some msg_invalid_format,
        organizationUuid = None\<rparr>"
    using example_run_rows [of create b]
    by (simp only: handleSubmit_results [OF ne]) (simp add: cookieLines_example del: run_rows.simps)
  moreover have "map status (results (snd (snd (handleSubmit accept_all () (mounted example_batch))))) =
       [Success, Error, Success]"
    using example_run_rows [of accept_all "()"]
    by (simp only: handleSubmit_results [OF ne'])
      (simp add: cookieLines_example mounted_def accept_all_def outcome_def del: run_rows.simps)
  ultimately show ?thesis by (intro conjI)
qed

text \<open>
  C1 as stated fails: the claim has the 300 ms pause after every processed line,
  including one whose validation fails. In the run of the three-line batch against the
  accepting backend, recording the error of line 2 is directly followed by the start of
  line 3, and the whole run has two pauses for its three lines.
\<close>

theorem example_batch_pause_counterexample:
  "take 4 (drop 7 (map fst (fst (handleSubmit accept_all () (mounted example_batch))))) =
     [SetRow 1 Processing, SetRow 1 Error, SetRow 2 Processing,
      AwaitCreate (js ''sessionKey=sk-ant-sid01-bbb'')]
   \<and> length (filter (\<lambda>a. a = AwaitTimeout 300)
         (map fst (fst (handleSubmit accept_all () (mounted example_batch))))) = 2
   \<and> length (cookieLines_of (cookies (mounted example_batch))) = 3"
  by (simp only: handleSubmit_actions)
    (simp add: cookieLines_example mounted_def example_run_actions accept_all_def outcome_def
      del: run_actions.simps)


subsection \<open>Row statuses\<close>

text \<open>
  C4. Within one batch run, from the update that creates the rows on, every update of
  \<open>results\<close> leaves each row's status unchanged or moves it one step along
  pending, processing, success or error: no update moves a status backwards, and a row
  that has reached success or error keeps that status.
\<close>

theorem handleSubmit_status_advances:
  "successively rows_advance (map (results \<circ> snd) (drop 2 (fst (handleSubmit create b st))))"
proof (cases "cookieLines_of (cookies st) = []")
  case True
  then show ?thesis by (simp add: handleSubmit_empty)
next
  case False
  then obtain tr2 b' st4 where
    p: "process_lines create 0 (cookieLines_of (cookies st)) b (started st) = (tr2, b', st4)"
    and h: "handleSubmit create b st =
      ([(SetIsProcessing True, st\<lparr>isProcessing := True\<rparr>),
        (SetShowResults True, st\<lparr>isProcessing := True, showResults := True\<rparr>),
        (SetResults, started st)] @ tr2 @ [(SetIsProcessing False, st4\<lparr>isProcessing := False\<rparr>)],
       b', st4\<lparr>isProcessing := False\<rparr>)"
    by (rule handleSubmit_run)
  have hist: "successively rows_advance (history (started st) tr2)"
    using p by (rule process_lines_history) (simp_all add: started_props)
  have "st4 = final_state (started st) tr2"
    using p by (rule process_lines_final)
  then have "last (history (started st) tr2) = results st4"
    by (simp add: history_def final_state_def last_map)
  then have "successively rows_advance (history (started st) tr2 @ [results st4])"
    using hist by (intro successively_glue) (simp_all add: history_def rows_advance_refl)
  then show ?thesis
    by (simp add: h history_def)
qed

theorem handleSubmit_status_advances_witness:
  "successively rows_advance
     (map (results \<circ> snd) (drop 2 (fst (handleSubmit accept_all () (mounted example_batch)))))
   \<and> length (fst (handleSubmit accept_all () (mounted example_batch))) = 14"
proof -
  have "length (map fst (fst (handleSubmit accept_all () (mounted example_batch)))) = 14"
    by (simp only: handleSubmit_actions)
      (simp add: cookieLines_example mounted_def example_run_actions del: run_actions.simps)
  then show ?thesis
    using handleSubmit_status_advances [of accept_all "()" "mounted example_batch"] by simp
qed

subsection \<open>Closing during a run\<close>

lemma handleSubmit_flags:
  assumes "cookieLines_of (cookies st) \<noteq> []"
  shows "\<forall>s \<in> set (map snd (butlast (fst (handleSubmit create b st)))). isProcessing s"
    and "\<not> isProcessing (snd (snd (handleSubmit create b st)))"
    and "snd (last (fst (handleSubmit create b st))) = snd (snd (handleSubmit create b st))"
proof -
  from assms obtain tr2 b' st4 where
    p: "process_lines create 0 (cookieLines_of (cookies st)) b (started st) = (tr2, b', st4)"
    and h: "handleSubmit create b st =
      ([(SetIsProcessing True, st\<lparr>isProcessing := True\<rparr>),
        (SetShowResults True, st\<lparr>isProcessing := True, showResults := True\<rparr>),
        (SetResults, started st)] @ tr2 @ [(SetIsProcessing False, st4\<lparr>isProcessing := False\<rparr>)],
       b', st4\<lparr>isProcessing := False\<rparr>)"
    by (rule handleSubmit_run)
  have "isProcessing s" if "s \<in> set (map snd tr2)" for s
    using process_lines_flags [OF p that] by (simp add: started_props)
  then show "\<forall>s \<in> set (map snd (butlast (fst (handleSubmit create b st)))). isProcessing s"
    by (auto simp: h butlast_append started_props)
  show "\<not> isProcessing (snd (snd (handleSubmit create b st)))"
    by (simp add: h)
  show "snd (last (fst (handleSubmit create b st))) = snd (snd (handleSubmit create b st))"
    by (simp add: h)
qed

text \<open>
  C5, as the code has it. The close action is gated by the \<open>isProcessing\<close> flag, not by
  the rows. When a batch run starts (the input has a line), then at every state of the
  run before its last update, which clears the flag, the close action does not call
  \<open>onClose\<close>; in particular it does not while a row is still pending or processing. At
  the state the run ends in, every row has reached success or error and the close action
  calls \<open>onClose\<close>.
\<close>

theorem handleClose_during_run:
  assumes "cookieLines_of (cookies st) \<noteq> []"
  shows "(\<forall>s \<in> set (map snd (butlast (fst (handleSubmit create b st)))). \<not> handleClose s)
    \<and> (\<forall>s \<in> set (map snd (fst (handleSubmit create b st))).
          \<not> list_all settled (results s) \<longrightarrow> \<not> handleClose s)
    \<and> snd (last (fst (handleSubmit create b st))) = snd (snd (handleSubmit create b st))
    \<and> list_all settled (results (snd (snd (handleSubmit create b st))))
    \<and> handleClose (snd (snd (handleSubmit create b st)))"
proof -
  let ?tr = "fst (handleSubmit create b st)" and ?st' = "snd (snd (handleSubmit create b st))"
  note f = handleSubmit_flags [OF assms, of create b]
  have ne: "?tr \<noteq> []"
    using handleSubmit_actions [of create b st] assms by auto
  have 1: "\<forall>s \<in> set (map snd (butlast ?tr)). \<not> handleClose s"
    using f(1) by (simp add: handleClose_def)
  have 4: "list_all settled (results ?st')"
    by (simp add: handleSubmit_results [OF assms] run_rows_settled)
  have 5: "handleClose ?st'"
    using f(2) by (simp add: handleClose_def)
  have "\<not> handleClose s" if "s \<in> set (map snd ?tr)" "\<not> list_all settled (results s)" for s
  proof -
    have "?tr = butlast ?tr @ [last ?tr]"
      using ne by simp
    then have "set (map snd ?tr) = set (map snd (butlast ?tr)) \<union> {snd (last ?tr)}"
      by (metis list.set(1) list.simps(8,9) list.simps(15) map_append set_append)
    with that(1) consider "s \<in> set (map snd (butlast ?tr))" | "s = ?st'"
      using f(3) by auto
    then show ?thesis
    proof cases
      case 1
      with \<open>\<forall>s \<in> set (map snd (butlast ?tr)). \<not> handleClose s\<close> show ?thesis by blast
    next
      case 2
      with 4 that(2) show ?thesis by simp
    qed
  qed
  with 1 4 5 f(3) show ?thesis by blast
qed

text \<open>The one-line batch \<open>sk-ant-sid01-aaa\<close> against the accepting backend.\<close>

lemma one_line_run:
  "handleSubmit accept_all () (mounted (js ''sk-ant-sid01-aaa'')) =
     ([(SetIsProcessing True,
        \<lparr>cookies = js ''sk-ant-sid01-aaa'', isProcessing = True, results = [],
         showResults = False\<rparr>),
       (SetShowResults True,
        \<lparr>cookies = js ''sk-ant-sid01-aaa'', isProcessing = True, results = [],
         showResults = True\<rparr>),
       (SetResults,
        \<lparr>cookies = js ''sk-ant-sid01-aaa'', isProcessing = True,
         results = [\<lparr>cookie = js ''sk-ant-sid01-aaa'', status = Pending, error = None,
                     organizationUuid = None\<rparr>],
         showResults = True\<rparr>),
       (SetRow 0 Processing,
        \<lparr>cookies = js ''sk-ant-sid01-aaa'', isProcessing = True,
         results = [\<lparr>cookie = js ''sk-ant-sid01-aaa'', status = Processing, error = None,
                     organizationUuid = None\<rparr>],
         showResults = True\<rparr>),
       (AwaitCreate (js ''sessionKey=sk-ant-sid01-aaa''),
        \<lparr>cookies = js ''sk-ant-sid01-aaa'', isProcessing = True,
         results = [\<lparr>cookie = js ''sk-ant-sid01-aaa'', status = Processing, error = None,
                     organizationUuid = None\<rparr>],
         showResults = True\<rparr>),
       (SetRow 0 Success,
        \<lparr>cookies = js ''sk-ant-sid01-aaa'', isProcessing = True,
         results = [\<lparr>cookie = js ''sk-ant-sid01-aaa'', status = Success, error = None,
                     organizationUuid = Some (js ''org'')\<rparr>],
         showResults = True\<rparr>),
       (AwaitTimeout 300,
        \<lparr>cookies = js ''sk-ant-sid01-aaa'', isProcessing = True,
         results = [\<lparr>cookie = js ''sk-ant-sid01-aaa'', status = Success, error = None,
                     organizationUuid = Some (js ''org'')\<rparr>],
         showResults = True\<rparr>),
       (SetIsProcessing False,
        \<lparr>cookies = js ''sk-ant-sid01-aaa'', isProcessing = False,
         results = [\<lparr>cookie = js ''sk-ant-sid01-aaa'', status = Success, error = None,
                     organizationUuid = Some (js ''org'')\<rparr>],
         showResults = True\<rparr>)],
      (),
      \<lparr>cookies = js ''sk-ant-sid01-aaa'', isProcessing = False,
       results = [\<lparr>cookie = js ''sk-ant-sid01-aaa'', status = Success, error = None,
                   organizationUuid = Some (js ''org'')\<rparr>],
       showResults = True\<rparr>)"
proof -
  have "cookieLines_of (js ''sk-ant-sid01-aaa'') = [js ''sk-ant-sid01-aaa'']"
    by (simp add: cookieLines_of_def js_def trim_def is_ws_def LF_def)
  then show ?thesis
    by (simp add: handleSubmit_def Let_def process_line_def mounted_def validate_aaa
      accept_all_def initialResults_def
      set_row_def mark_processing_def mark_error_def mark_success_def)
qed

theorem handleClose_during_run_witness:
  "cookieLines_of (cookies (mounted (js ''sk-ant-sid01-aaa''))) \<noteq> []
   \<and> \<not> handleClose (snd (fst (handleSubmit accept_all () (mounted (js ''sk-ant-sid01-aaa''))) ! 4))
   \<and> handleClose (snd (snd (handleSubmit accept_all () (mounted (js ''sk-ant-sid01-aaa'')))))
   \<and> list_all settled (results (snd (snd (handleSubmit accept_all () (mounted (js ''sk-ant-sid01-aaa''))))))"
proof -
  have ne: "cookieLines_of (cookies (mounted (js ''sk-ant-sid01-aaa''))) \<noteq> []"
    by (simp add: mounted_def cookieLines_of_def js_def trim_def is_ws_def LF_def)
  have "snd (fst (handleSubmit accept_all () (mounted (js ''sk-ant-sid01-aaa''))) ! 4)
      \<in> set (map snd (butlast (fst (handleSubmit accept_all () (mounted (js ''sk-ant-sid01-aaa''))))))"
    by (simp add: one_line_run)
  with handleClose_during_run [OF ne, of accept_all "()"] ne show ?thesis
    by blast
qed

text \<open>
  C5 as stated fails: the claim has the close action call \<open>onClose\<close> as soon as every
  item has reached success or error. During the last pause of the one-line run the only
  row is a success, and the close action still does nothing.
\<close>

theorem handleClose_last_pause_counterexample:
  "fst (fst (handleSubmit accept_all () (mounted (js ''sk-ant-sid01-aaa''))) ! 6) = AwaitTimeout 300
   \<and> map status (results (snd (fst (handleSubmit accept_all () (mounted (js ''sk-ant-sid01-aaa''))) ! 6)))
       = [Success]
   \<and> list_all settled (results (snd (fst (handleSubmit accept_all () (mounted (js ''sk-ant-sid01-aaa''))) ! 6)))
   \<and> \<not> handleClose (snd (fst (handleSubmit accept_all () (mounted (js ''sk-ant-sid01-aaa''))) ! 6))"
  by (simp add: one_line_run handleClose_def settled_def)


subsection \<open>Copying the failed cookies\<close>

lemma trim_subset: "set (trim s) \<subseteq> set s"
proof
  fix x
  assume "x \<in> set (trim s)"
  then have "x \<in> set (dropWhile is_ws (rev (dropWhile is_ws s)))"
    by (simp add: trim_def)
  then have "x \<in> set (rev (dropWhile is_ws s))"
    by (rule set_dropWhileD)
  then have "x \<in> set (dropWhile is_ws s)"
    by simp
  then show "x \<in> set s"
    by (rule set_dropWhileD)
qed

lemma dropWhile_trim: "dropWhile is_ws (trim s) = trim s"
proof (cases "trim s")
  case Nil
  then show ?thesis by simp
next
  case (Cons c cs)
  define u where "u = dropWhile is_ws s"
  have "u = rev (dropWhile is_ws (rev u)) @ rev (takeWhile is_ws (rev u))"
    by (metis rev_append rev_rev_ident takeWhile_dropWhile_id)
  then have u: "u = trim s @ rev (takeWhile is_ws (rev u))"
    by (simp add: trim_def u_def)
  with Cons have "u \<noteq> []" "hd u = c"
    by (metis append_is_Nil_conv list.distinct(1), metis hd_append2 list.sel(1) list.distinct(1))
  then have "\<not> is_ws c"
    using hd_dropWhile [of is_ws s] by (simp add: u_def)
  with Cons show ?thesis by simp
qed

lemma trim_idem: "trim (trim s) = trim s"
proof -
  have "trim (trim s) = rev (dropWhile is_ws (rev (trim s)))"
    by (simp add: trim_def [of "trim s"] dropWhile_trim)
  also have "rev (trim s) = dropWhile is_ws (rev (dropWhile is_ws s))"
    by (simp add: trim_def)
  also have "rev (dropWhile is_ws (dropWhile is_ws (rev (dropWhile is_ws s)))) = trim s"
    by (simp add: trim_def dropWhile_idem)
  finally show ?thesis .
qed

lemma split_on_free: "x \<in> set (split_on d s) \<Longrightarrow> d \<notin> set x"
proof (induction s arbitrary: x)
  case Nil
  then show ?case by simp
next
  case (Cons c cs)
  then show ?case
    by (cases "split_on d cs") (auto split: if_splits)
qed

lemma split_on_single: "d \<notin> set x \<Longrightarrow> split_on d x = [x]"
  by (induction x) auto

lemma split_on_append: "d \<notin> set x \<Longrightarrow> split_on d (x @ d # r) = x # split_on d r"
  by (induction x) auto

lemma split_join:
  "xs \<noteq> [] \<Longrightarrow> \<forall>x \<in> set xs. d \<notin> set x \<Longrightarrow> split_on d (join_with d xs) = xs"
  by (induction d xs rule: join_with.induct) (simp_all add: split_on_single split_on_append)

lemma cookieLines_of_props:
  assumes "l \<in> set (cookieLines_of text)"
  shows "LF \<notin> set l" and "trim l = l" and "l \<noteq> []"
proof -
  from assms obtain x where x: "x \<in> set (split_on LF text)" and l: "l = trim x" and n: "l \<noteq> []"
    by (auto simp: cookieLines_of_def)
  show "LF \<notin> set l"
    using split_on_free [OF x] trim_subset [of x] l by auto
  show "trim l = l"
    by (simp add: l trim_idem)
  show "l \<noteq> []" by (rule n)
qed

lemma cookieLines_of_join:
  assumes "\<forall>l \<in> set xs. LF \<notin> set l \<and> trim l = l \<and> l \<noteq> []"
  shows "cookieLines_of (join_with LF xs) = xs"
proof (cases "xs = []")
  case True
  then show ?thesis
    by (simp add: cookieLines_of_def trim_def)
next
  case False
  with assms have "split_on LF (join_with LF xs) = xs"
    by (intro split_join) auto
  moreover have "map trim xs = xs"
    using assms by (simp add: map_idI)
  moreover have "filter (\<lambda>line. length line > 0) xs = xs"
    using assms by (simp add: filter_id_conv)
  ultimately show ?thesis
    by (simp add: cookieLines_of_def)
qed

text \<open>
  C8. After a batch run (the input had a line), the rows carry the trimmed input lines
  in input order, and the text the copy action hands to the clipboard is the join, with
  line feeds, of the lines of the rows whose status is error, in that order. Splitting
  that text on line feeds gives back exactly those lines when there is one, and the
  line-splitting step of the batch processor (split, trim, drop empty lines) gives them
  back in every case: pasted back, the copied text is the batch of the failures.
\<close>

theorem copyFailedCookies_roundtrip:
  assumes "cookieLines_of (cookies st) \<noteq> []"
  shows "map cookie (results (snd (snd (handleSubmit create b st)))) = cookieLines_of (cookies st)
    \<and> copyFailedCookies (snd (snd (handleSubmit create b st))) =
        join_with LF (map cookie (filter (\<lambda>r. status r = Error)
          (results (snd (snd (handleSubmit create b st))))))
    \<and> cookieLines_of (copyFailedCookies (snd (snd (handleSubmit create b st)))) =
        map cookie (filter (\<lambda>r. status r = Error) (results (snd (snd (handleSubmit create b st)))))
    \<and> (filter (\<lambda>r. status r = Error) (results (snd (snd (handleSubmit create b st)))) \<noteq> [] \<longrightarrow>
        split_on LF (copyFailedCookies (snd (snd (handleSubmit create b st)))) =
        map cookie (filter (\<lambda>r. status r = Error) (results (snd (snd (handleSubmit create b st))))))"
proof -
  let ?rs = "results (snd (snd (handleSubmit create b st)))"
  let ?failed = "map cookie (filter (\<lambda>r. status r = Error) ?rs)"
  have c: "map cookie ?rs = cookieLines_of (cookies st)"
    by (simp add: handleSubmit_results [OF assms] run_rows_cookie)
  have "set ?failed \<subseteq> set (map cookie ?rs)"
    by auto
  then have ok: "\<forall>l \<in> set ?failed. LF \<notin> set l \<and> trim l = l \<and> l \<noteq> []"
    using cookieLines_of_props [of _ "cookies st"] unfolding c by blast
  have 3: "cookieLines_of (join_with LF ?failed) = ?failed"
    using ok by (rule cookieLines_of_join)
  have 4: "split_on LF (join_with LF ?failed) = ?failed" if "?failed \<noteq> []"
    using that ok by (intro split_join) auto
  show ?thesis
    using c 3 4 by (simp add: copyFailedCookies_def)
qed

theorem copyFailedCookies_roundtrip_witness:
  "cookieLines_of (cookies (mounted example_batch)) \<noteq> []
   \<and> map cookie (filter (\<lambda>r. status r = Error)
        (results (snd (snd (handleSubmit accept_all () (mounted example_batch)))))) = [js ''garbage'']
   \<and> copyFailedCookies (snd (snd (handleSubmit accept_all () (mounted example_batch)))) = js ''garbage''
   \<and> cookieLines_of (copyFailedCookies (snd (snd (handleSubmit accept_all () (mounted example_batch)))))
       = [js ''garbage'']
   \<and> split_on LF (copyFailedCookies (snd (snd (handleSubmit accept_all () (mounted example_batch)))))
       = [js ''garbage'']"
proof -
  have ne: "cookieLines_of (cookies (mounted example_batch)) \<noteq> []"
    by (simp add: cookieLines_example mounted_def)
  have "results (snd (snd (handleSubmit accept_all () (mounted example_batch)))) =
      run_rows accept_all (cookieLines_of (cookies (mounted example_batch))) ()"
    by (rule handleSubmit_results [OF ne])
  then have f: "map cookie (filter (\<lambda>r. status r = Error)
        (results (snd (snd (handleSubmit accept_all () (mounted example_batch)))))) = [js ''garbage'']"
    by (simp add: cookieLines_example mounted_def line_row_def line_backend_def Let_def
        validate_aaa validate_garbage validate_bbb accept_all_def)
  then have nf: "filter (\<lambda>r. status r = Error)
        (results (snd (snd (handleSubmit accept_all () (mounted example_batch))))) \<noteq> []"
    by auto
  note t = copyFailedCookies_roundtrip [OF ne, of accept_all "()"]
  have "copyFailedCookies (snd (snd (handleSubmit accept_all () (mounted example_batch)))) =
      join_with LF [js ''garbage'']"
    using t [THEN conjunct2, THEN conjunct1] by (simp only: f)
  moreover have "cookieLines_of
      (copyFailedCookies (snd (snd (handleSubmit accept_all () (mounted example_batch))))) =
      [js ''garbage'']"
    using t [THEN conjunct2, THEN conjunct2, THEN conjunct1] by (simp only: f)
  moreover have "split_on LF
      (copyFailedCookies (snd (snd (handleSubmit accept_all () (mounted example_batch))))) =
      [js ''garbage'']"
    using t [THEN conjunct2, THEN conjunct2, THEN conjunct2, THEN mp, OF nf] by (simp only: f)
  ultimately show ?thesis
    using ne f by simp
qed


section \<open>The PKCE generator\<close>

subsection \<open>Base64\<close>

lemma byte_bound: "unat (a :: byte) < 256"
  using unsigned_less [of a, where ?'a = nat] by simp

lemma b64_index_bounds:
  "unat (a :: byte) div 4 < 64"
  "unat (a :: byte) mod 4 * 16 < 64"
  "unat (a :: byte) mod 4 * 16 + unat (b :: byte) div 16 < 64"
  "unat (b :: byte) mod 16 * 4 < 64"
  "unat (b :: byte) mod 16 * 4 + unat (c :: byte) div 64 < 64"
  "unat (c :: byte) mod 64 < 64"
  using byte_bound [of a] byte_bound [of b] byte_bound [of c] by simp_all

lemma b64_alphabet_url:
  "map (\<lambda>c. if c = 0x2F then 0x5F else c) (map (\<lambda>c. if c = 0x2B then 0x2D else c) b64_alphabet)
     = b64url_alphabet"
  by (simp add: b64_alphabet_def b64url_alphabet_def js_def)

lemma length_alphabets: "length b64_alphabet = 64" "length b64url_alphabet = 64"
  by (simp_all add: b64_alphabet_def b64url_alphabet_def js_def)

lemma b64url_alphabet_safe: "list_all url_safe b64url_alphabet"
  by (simp add: b64url_alphabet_def js_def url_safe_def)

lemma b64url_char_safe: "n < 64 \<Longrightarrow> url_safe (b64url_char n)"
  using b64url_alphabet_safe by (simp add: list_all_length b64url_char_def length_alphabets)

lemma b64_char_url:
  assumes "n < 64"
  shows "(if (if b64_char n = 0x2B then 0x2D else b64_char n) = 0x2F then 0x5F
          else (if b64_char n = 0x2B then 0x2D else b64_char n)) = b64url_char n"
proof -
  have "map (\<lambda>c. if c = 0x2F then 0x5F else c)
          (map (\<lambda>c. if c = 0x2B then 0x2D else c) b64_alphabet) ! n = b64url_alphabet ! n"
    by (simp only: b64_alphabet_url)
  then show ?thesis
    using assms by (simp add: b64_char_def b64url_char_def length_alphabets split: if_splits)
qed

lemma translate_b64_char:
  assumes "n < 64"
  shows "base64url_of_base64 (b64_char n # s) = b64url_char n # base64url_of_base64 s"
proof -
  have "b64url_char n \<noteq> 0x3D"
    using b64url_char_safe [OF assms] by (simp add: url_safe_def)
  then show ?thesis
    using b64_char_url [OF assms]
    by (simp add: base64url_of_base64_def remove_char_def replace_char_def)
qed

lemma translate_pad: "base64url_of_base64 (0x3D # s) = base64url_of_base64 s"
  by (simp add: base64url_of_base64_def remove_char_def replace_char_def)

lemma translate_Nil: "base64url_of_base64 [] = []"
  by (simp add: base64url_of_base64_def remove_char_def replace_char_def)

lemma base64url_of_b64_encode: "base64url_of_base64 (b64_encode bs) = rfc4648_base64url bs"
  by (induction bs rule: b64_encode.induct)
    (simp_all add: translate_b64_char translate_pad translate_Nil b64_index_bounds)

lemma length_rfc4648_base64url: "length (rfc4648_base64url bs) = (4 * length bs + 2) div 3"
  by (induction bs rule: rfc4648_base64url.induct) simp_all

lemma rfc4648_base64url_safe: "list_all url_safe (rfc4648_base64url bs)"
  by (induction bs rule: rfc4648_base64url.induct)
    (simp_all add: b64url_char_safe b64_index_bounds)

lemma length_b64_encode: "length (b64_encode bs) = 4 * ((length bs + 2) div 3)"
proof (induction bs rule: b64_encode.induct)
  case (4 a b c rest)
  have "(length (a # b # c # rest) + 2) div 3 = Suc ((length rest + 2) div 3)"
    by simp
  with 4 show ?case
    by (simp only: b64_encode.simps length_append list.size) simp
qed simp_all

lemma b64_alphabet_no_pad: "list_all (\<lambda>c. c \<noteq> 0x3D) b64_alphabet"
  by (simp add: b64_alphabet_def js_def)

lemma b64_char_no_pad: "n < 64 \<Longrightarrow> b64_char n \<noteq> 0x3D"
  using b64_alphabet_no_pad by (simp add: list_all_length b64_char_def length_alphabets)

lemma pad_count_b64_encode:
  "length (filter (\<lambda>c. c = 0x3D) (b64_encode bs)) = (3 - length bs mod 3) mod 3"
proof (induction bs rule: b64_encode.induct)
  case (4 a b c rest)
  have "(3 - Suc (Suc (Suc (length rest))) mod 3) mod 3 = (3 - length rest mod 3) mod 3"
    by (simp add: mod_Suc)
  with 4 show ?case
    by (simp add: b64_char_no_pad b64_index_bounds del: mod_Suc)
qed (simp_all add: b64_char_no_pad b64_index_bounds)

lemma ucast_byte_le: "(ucast (b :: byte) :: 16 word) \<le> 0xFF"
proof -
  have "unat (ucast b :: 16 word) = unat b"
    by (simp add: unsigned_ucast_eq take_bit_nat_eq_self_iff order_less_trans [OF byte_bound])
  then show ?thesis
    using byte_bound [of b] by (simp add: word_le_nat_alt)
qed

lemma ucast_byte_id: "(ucast (ucast (b :: byte) :: 16 word) :: byte) = b"
  by (simp add: ucast_up_ucast_id is_up)

lemma btoa_fromCharCode: "btoa (fromCharCode bs) = Some (b64_encode bs)"
proof -
  have "list_all (\<lambda>c. c \<le> 0xFF) (fromCharCode bs)"
    by (simp add: fromCharCode_def list_all_iff ucast_byte_le)
  moreover have "map ucast (fromCharCode bs) = bs"
    by (simp add: fromCharCode_def comp_def ucast_byte_id)
  ultimately show ?thesis
    by (simp add: btoa_def)
qed

subsection \<open>The digest\<close>

lemma length_sha256: "length (sha256 m) = 32"
  by (simp add: sha256_def bytes_of_def split: prod.splits)

text \<open>The constants of the model against their definition in FIPS 180-4.\<close>

lemma K256_cube_roots:
  "list_all2 (root_bits 3)
     [2, 3, 5, 7, 11, 13, 17, 19, 23, 29, 31, 37, 41, 43, 47, 53, 59, 61, 67, 71, 73, 79, 83,
      89, 97, 101, 103, 107, 109, 113, 127, 131, 137, 139, 149, 151, 157, 163, 167, 173, 179,
      181, 191, 193, 197, 199, 211, 223, 227, 229, 233, 239, 241, 251, 257, 263, 269, 271,
      277, 281, 283, 293, 307, 311] K256"
  by (simp add: K256_def root_bits_def)

lemma H256_square_roots:
  "(case H256 of (a, b, c, d, e, f, g, h) \<Rightarrow>
      list_all2 (root_bits 2) [2, 3, 5, 7, 11, 13, 17, 19] [a, b, c, d, e, f, g, h])"
  by (simp add: H256_def root_bits_def)

text \<open>The model of the digest on the test vector \<open>abc\<close> of FIPS 180-4.\<close>

lemma sha256_abc:
  "sha256 [0x61, 0x62, 0x63] =
     [0xba, 0x78, 0x16, 0xbf, 0x8f, 0x01, 0xcf, 0xea, 0x41, 0x41, 0x40, 0xde, 0x5d, 0xae, 0x22, 0x23,
      0xb0, 0x03, 0x61, 0xa3, 0x96, 0x17, 0x7a, 0x9c, 0xb4, 0x10, 0xff, 0x61, 0xf2, 0x00, 0x15, 0xad]"
  by code_simp

subsection \<open>generatePKCE\<close>

lemma generatePKCE_eq:
  "generatePKCE random =
     Some \<lparr>verifier = rfc4648_base64url (random_bytes random),
           challenge = rfc4648_base64url
             (sha256 (TextEncoder_encode (rfc4648_base64url (random_bytes random))))\<rparr>"
  by (simp add: generatePKCE_def random_bytes_def btoa_fromCharCode base64url_of_b64_encode
      Let_def)

lemma length_random_bytes: "length (random_bytes random) = 32"
  by (simp add: random_bytes_def)


text \<open>
  C2. Every invocation of the PKCE generator returns a pair. Its verifier is the
  base64url encoding without padding of the 32 random bytes; its challenge is the
  base64url encoding without padding of the SHA-256 digest of the UTF-8 bytes of the
  verifier, so it is a function of the verifier alone; both are non-empty and contain
  none of \<open>+\<close>, \<open>/\<close> and \<open>=\<close>.
\<close>

theorem generatePKCE_spec:
  "\<exists>v c. generatePKCE random = Some \<lparr>verifier = v, challenge = c\<rparr>
     \<and> length (random_bytes random) = 32
     \<and> v = rfc4648_base64url (random_bytes random)
     \<and> c = rfc4648_base64url (sha256 (TextEncoder_encode v))
     \<and> v \<noteq> [] \<and> c \<noteq> []
     \<and> list_all url_safe v \<and> list_all url_safe c"
proof -
  let ?v = "rfc4648_base64url (random_bytes random)"
  let ?c = "rfc4648_base64url (sha256 (TextEncoder_encode ?v))"
  have "length ?v = 43" "length ?c = 43"
    by (simp_all add: length_rfc4648_base64url length_random_bytes length_sha256)
  then have "?v \<noteq> []" "?c \<noteq> []"
    by auto
  then show ?thesis
    by (simp add: generatePKCE_eq length_random_bytes rfc4648_base64url_safe)
qed

text \<open>
  C9. For every invocation of the PKCE generator, the verifier and the challenge have
  exactly 43 characters each: the 32 random bytes and the 32 bytes of the digest each
  have a base64 form of 44 characters, exactly one of them the padding \<open>=\<close>, which is
  removed.
\<close>

theorem generatePKCE_lengths:
  "\<exists>t u v c. btoa (fromCharCode (random_bytes random)) = Some t
     \<and> length t = 44 \<and> length (filter (\<lambda>x. x = 0x3D) t) = 1
     \<and> v = base64url_of_base64 t
     \<and> length (sha256 (TextEncoder_encode v)) = 32
     \<and> btoa (fromCharCode (sha256 (TextEncoder_encode v))) = Some u
     \<and> length u = 44 \<and> length (filter (\<lambda>x. x = 0x3D) u) = 1
     \<and> c = base64url_of_base64 u
     \<and> generatePKCE random = Some \<lparr>verifier = v, challenge = c\<rparr>
     \<and> length v = 43 \<and> length c = 43"
proof -
  let ?t = "b64_encode (random_bytes random)"
  let ?v = "base64url_of_base64 ?t"
  let ?u = "b64_encode (sha256 (TextEncoder_encode ?v))"
  let ?c = "base64url_of_base64 ?u"
  have t: "length ?t = 44" "length (filter (\<lambda>x. x = 0x3D) ?t) = 1"
    by (simp_all add: length_b64_encode pad_count_b64_encode length_random_bytes)
  have u: "length ?u = 44" "length (filter (\<lambda>x. x = 0x3D) ?u) = 1"
    by (simp_all add: length_b64_encode pad_count_b64_encode length_sha256)
  have l: "length ?v = 43" "length ?c = 43"
    by (simp_all add: base64url_of_b64_encode length_rfc4648_base64url length_random_bytes
        length_sha256)
  have g: "generatePKCE random = Some \<lparr>verifier = ?v, challenge = ?c\<rparr>"
    by (simp add: generatePKCE_eq base64url_of_b64_encode)
  show ?thesis
    using t u l g by (simp add: btoa_fromCharCode length_sha256)
qed


section \<open>The OAuth token exchange\<close>

lemma handleGenerateUrl_ok:
  assumes "trim (oauth_organizationUuid st) \<noteq> []"
  shows "snd (handleGenerateUrl formatUUID random st) =
           st\<lparr>loading := False, oauth_error := [], step := Code,
              pkceVerifier := rfc4648_base64url (random_bytes random)\<rparr>"
  using assms by (simp add: handleGenerateUrl_def generatePKCE_eq Let_def)

lemma oauth_mounted_sel:
  "oauth_organizationUuid (oauth_mounted org tier) = org"
  "accountType (oauth_mounted org tier) = tier"
  "authCode (oauth_mounted org tier) = []"
  by (simp_all add: oauth_mounted_def)

lemma handleExchangeToken_blocked:
  assumes "trim (authCode st) = []"
  shows "fst (handleExchangeToken formatUUID exchange st) = []" and "exchange_disabled st"
  using assms by (simp_all add: handleExchangeToken_def exchange_disabled_def)

lemma handleExchangeToken_sends:
  assumes "trim (authCode st) \<noteq> []"
  shows "fst (handleExchangeToken formatUUID exchange st) =
           ExchangeOAuthCode
             \<lparr>organization_uuid = formatUUID (oauth_organizationUuid st), code = authCode st,
              pkce_verifier = pkceVerifier st, capabilities = tier_capabilities (accountType st)\<rparr>
           # (if exchange
                  \<lparr>organization_uuid = formatUUID (oauth_organizationUuid st), code = authCode st,
                   pkce_verifier = pkceVerifier st,
                   capabilities = tier_capabilities (accountType st)\<rparr>
              then [OnClose] else [ConsoleError])"
  using assms
  by (cases "accountType st") (simp_all add: handleExchangeToken_def tier_capabilities_def Let_def)

text \<open>
  C7. A token-exchange submission with a pasted code that does not trim to the empty
  string sends exactly one request, made of the formatted organisation identifier, the
  pasted code, the stored PKCE verifier and the capability set of the selected tier,
  \<open>chat\<close> and \<open>claude_pro\<close> for Pro, \<open>chat\<close> and \<open>claude_max\<close> for Max; while the code
  trims to the empty string the submit button is disabled and the handler sends nothing.
  In a flow from the url-generation step, the stored verifier is the one that step
  generated and put in the authorization URL.
\<close>

theorem handleExchangeToken_request:
  "(trim (authCode st) = [] \<longrightarrow>
      fst (handleExchangeToken formatUUID exchange st) = [] \<and> exchange_disabled st)
   \<and> (trim (authCode st) \<noteq> [] \<longrightarrow>
      filter (\<lambda>a. a \<noteq> OnClose \<and> a \<noteq> ConsoleError) (fst (handleExchangeToken formatUUID exchange st)) =
        [ExchangeOAuthCode
           \<lparr>organization_uuid = formatUUID (oauth_organizationUuid st), code = authCode st,
            pkce_verifier = pkceVerifier st,
            capabilities =
              (case accountType st of Pro \<Rightarrow> [js ''chat'', js ''claude_pro'']
               | Max \<Rightarrow> [js ''chat'', js ''claude_max''])\<rparr>])
   \<and> (trim org \<noteq> [] \<and> trim c \<noteq> [] \<longrightarrow>
      (\<exists>p. generatePKCE random = Some p
        \<and> fst (handleGenerateUrl formatUUID random (oauth_mounted org tier)) =
            [WindowOpen
               [(js ''response_type'', js ''code''), (js ''client_id'', CLIENT_ID),
                (js ''organization_uuid'', formatUUID org), (js ''redirect_uri'', REDIRECT_URI),
                (js ''scope'', js ''user:profile user:inference''), (js ''state'', verifier p),
                (js ''code_challenge'', challenge p), (js ''code_challenge_method'', js ''S256'')]]
        \<and> step (snd (handleGenerateUrl formatUUID random (oauth_mounted org tier))) = Code
        \<and> filter (\<lambda>a. a \<noteq> OnClose \<and> a \<noteq> ConsoleError)
             (fst (handleExchangeToken formatUUID exchange
                (setAuthCode c (snd (handleGenerateUrl formatUUID random (oauth_mounted org tier)))))) =
            [ExchangeOAuthCode
               \<lparr>organization_uuid = formatUUID org, code = c, pkce_verifier = verifier p,
                capabilities =
                  (case tier of Pro \<Rightarrow> [js ''chat'', js ''claude_pro'']
                   | Max \<Rightarrow> [js ''chat'', js ''claude_max''])\<rparr>]))"
proof (intro conjI impI)
  assume "trim (authCode st) = []"
  then show "fst (handleExchangeToken formatUUID exchange st) = []" "exchange_disabled st"
    by (rule handleExchangeToken_blocked)+
next
  assume "trim (authCode st) \<noteq> []"
  then show "filter (\<lambda>a. a \<noteq> OnClose \<and> a \<noteq> ConsoleError)
      (fst (handleExchangeToken formatUUID exchange st)) =
        [ExchangeOAuthCode
           \<lparr>organization_uuid = formatUUID (oauth_organizationUuid st), code = authCode st,
            pkce_verifier = pkceVerifier st,
            capabilities =
              (case accountType st of Pro \<Rightarrow> [js ''chat'', js ''claude_pro'']
               | Max \<Rightarrow> [js ''chat'', js ''claude_max''])\<rparr>]"
    by (simp add: handleExchangeToken_sends tier_capabilities_def)
next
  assume a: "trim org \<noteq> [] \<and> trim c \<noteq> []"
  let ?p = "\<lparr>verifier = rfc4648_base64url (random_bytes random),
             challenge = rfc4648_base64url
               (sha256 (TextEncoder_encode (rfc4648_base64url (random_bytes random))))\<rparr>"
  let ?st1 = "snd (handleGenerateUrl formatUUID random (oauth_mounted org tier))"
  have g: "generatePKCE random = Some ?p"
    by (rule generatePKCE_eq)
  have o: "trim (oauth_organizationUuid (oauth_mounted org tier)) \<noteq> []"
    using a by (simp add: oauth_mounted_sel)
  have w: "fst (handleGenerateUrl formatUUID random (oauth_mounted org tier)) =
            [WindowOpen
               [(js ''response_type'', js ''code''), (js ''client_id'', CLIENT_ID),
                (js ''organization_uuid'', formatUUID org), (js ''redirect_uri'', REDIRECT_URI),
                (js ''scope'', js ''user:profile user:inference''), (js ''state'', verifier ?p),
                (js ''code_challenge'', challenge ?p), (js ''code_challenge_method'', js ''S256'')]]"
    using a by (simp add: handleGenerateUrl_def g Let_def oauth_mounted_sel)
  have s1: "?st1 = (oauth_mounted org tier)\<lparr>loading := False, oauth_error := [], step := Code,
      pkceVerifier := rfc4648_base64url (random_bytes random)\<rparr>"
    by (rule handleGenerateUrl_ok [OF o])
  have s: "step ?st1 = Code"
    by (simp add: s1)
  have t: "trim (authCode (setAuthCode c ?st1)) \<noteq> []"
    using a by (simp add: setAuthCode_def)
  have x: "filter (\<lambda>a. a \<noteq> OnClose \<and> a \<noteq> ConsoleError)
             (fst (handleExchangeToken formatUUID exchange (setAuthCode c ?st1))) =
            [ExchangeOAuthCode
               \<lparr>organization_uuid = formatUUID org, code = c, pkce_verifier = verifier ?p,
                capabilities =
                  (case tier of Pro \<Rightarrow> [js ''chat'', js ''claude_pro'']
                   | Max \<Rightarrow> [js ''chat'', js ''claude_max''])\<rparr>]"
    unfolding handleExchangeToken_sends [OF t]
    by (simp add: s1 setAuthCode_def oauth_mounted_sel tier_capabilities_def)
  show "\<exists>p. generatePKCE random = Some p
        \<and> fst (handleGenerateUrl formatUUID random (oauth_mounted org tier)) =
            [WindowOpen
               [(js ''response_type'', js ''code''), (js ''client_id'', CLIENT_ID),
                (js ''organization_uuid'', formatUUID org), (js ''redirect_uri'', REDIRECT_URI),
                (js ''scope'', js ''user:profile user:inference''), (js ''state'', verifier p),
                (js ''code_challenge'', challenge p), (js ''code_challenge_method'', js ''S256'')]]
        \<and> step ?st1 = Code
        \<and> filter (\<lambda>a. a \<noteq> OnClose \<and> a \<noteq> ConsoleError)
             (fst (handleExchangeToken formatUUID exchange (setAuthCode c ?st1))) =
            [ExchangeOAuthCode
               \<lparr>organization_uuid = formatUUID org, code = c, pkce_verifier = verifier p,
                capabilities =
                  (case tier of Pro \<Rightarrow> [js ''chat'', js ''claude_pro'']
                   | Max \<Rightarrow> [js ''chat'', js ''claude_max''])\<rparr>]"
    using g w s x by blast
qed

lemma trim_ascii_examples:
  "trim (js ''org-1'') \<noteq> []" "trim (js ''abc#xyz'') \<noteq> []" "trim (js ''   '') = []"
  by (simp_all add: trim_def js_def is_ws_def)

theorem handleExchangeToken_request_witness:
  "trim (authCode (oauth_mounted (js ''org-1'') Max)) = []
   \<and> fst (handleExchangeToken (\<lambda>s. s) (\<lambda>d. True) (oauth_mounted (js ''org-1'') Max)) = []
   \<and> exchange_disabled (setAuthCode (js ''   '') (oauth_mounted (js ''org-1'') Max))
   \<and> trim (js ''org-1'') \<noteq> [] \<and> trim (js ''abc#xyz'') \<noteq> []
   \<and> filter (\<lambda>a. a \<noteq> OnClose \<and> a \<noteq> ConsoleError)
        (fst (handleExchangeToken (\<lambda>s. s) (\<lambda>d. True)
           (setAuthCode (js ''abc#xyz'')
              (snd (handleGenerateUrl (\<lambda>s. s) (\<lambda>i. 0) (oauth_mounted (js ''org-1'') Max)))))) =
      [ExchangeOAuthCode
         \<lparr>organization_uuid = js ''org-1'', code = js ''abc#xyz'',
          pkce_verifier = rfc4648_base64url (random_bytes (\<lambda>i. 0)),
          capabilities = [js ''chat'', js ''claude_max'']\<rparr>]"
proof -
  have e: "trim (authCode (oauth_mounted (js ''org-1'') Max)) = []"
    by (simp add: oauth_mounted_sel trim_def)
  have b: "trim (authCode (setAuthCode (js ''   '') (oauth_mounted (js ''org-1'') Max))) = []"
    by (simp add: setAuthCode_def trim_ascii_examples)
  note t = handleExchangeToken_request [of _ "\<lambda>s. s" "\<lambda>d. True" "js ''org-1''" "js ''abc#xyz''"
      "\<lambda>i. 0" Max]
  have 1: "fst (handleExchangeToken (\<lambda>s. s) (\<lambda>d. True) (oauth_mounted (js ''org-1'') Max)) = []"
    using t [of "oauth_mounted (js ''org-1'') Max"] e by blast
  have 2: "exchange_disabled (setAuthCode (js ''   '') (oauth_mounted (js ''org-1'') Max))"
    using t [of "setAuthCode (js ''   '') (oauth_mounted (js ''org-1'') Max)"] b by blast
  have 3: "filter (\<lambda>a. a \<noteq> OnClose \<and> a \<noteq> ConsoleError)
        (fst (handleExchangeToken (\<lambda>s. s) (\<lambda>d. True)
           (setAuthCode (js ''abc#xyz'')
              (snd (handleGenerateUrl (\<lambda>s. s) (\<lambda>i. 0) (oauth_mounted (js ''org-1'') Max)))))) =
      [ExchangeOAuthCode
         \<lparr>organization_uuid = js ''org-1'', code = js ''abc#xyz'',
          pkce_verifier = rfc4648_base64url (random_bytes (\<lambda>i. 0)),
          capabilities = [js ''chat'', js ''claude_max'']\<rparr>]"
    using t [of "oauth_mounted (js ''org-1'') Max"] trim_ascii_examples(1,2)
    by (auto simp: generatePKCE_eq)
  show ?thesis
    using e 1 2 3 trim_ascii_examples(1,2) by (intro conjI)
qed


section \<open>JSON.stringify\<close>

subsection \<open>Strings\<close>

lemma unat_small: "k < 65536 \<Longrightarrow> unat (of_nat k :: 16 word) = k"
  by (simp add: unat_of_nat)

lemma unhex_hex: "n < 16 \<Longrightarrow> unhex_digit (hex_digit n) = n"
proof -
  assume n: "n < 16"
  then have "unat (of_nat (0x30 + n) :: 16 word) = 0x30 + n"
    and "unat (of_nat (0x57 + n) :: 16 word) = 0x57 + n"
    by (simp_all only: unat_small)
  then show ?thesis
    using n by (simp only: unhex_digit_def hex_digit_def split: if_splits) auto
qed

lemma unit_bound: "unat (c :: 16 word) < 65536"
  using unsigned_less [of c, where ?'a = nat] by simp

lemma nibbles:
  "((a div 4096 * 16 + a div 256 mod 16) * 16 + a div 16 mod 16) * 16 + a mod 16 = (a :: nat)"
proof -
  have "a div 4096 = a div 256 div 16" and "a div 256 = a div 16 div 16"
    by (simp_all add: div_mult2_eq)
  then have "a div 4096 * 16 + a div 256 mod 16 = a div 256"
    and "a div 256 * 16 + a div 16 mod 16 = a div 16"
    by simp_all
  then show ?thesis
    by simp
qed

lemma unhex4_hex:
  "unhex4 (hex_digit (unat c div 4096)) (hex_digit (unat c div 256 mod 16))
     (hex_digit (unat c div 16 mod 16)) (hex_digit (unat c mod 16)) = c"
proof -
  have "unat c div 4096 < 16"
    using unit_bound [of c] by simp
  then have "((unhex_digit (hex_digit (unat c div 4096)) * 16
        + unhex_digit (hex_digit (unat c div 256 mod 16))) * 16
        + unhex_digit (hex_digit (unat c div 16 mod 16))) * 16
        + unhex_digit (hex_digit (unat c mod 16)) = unat c"
    by (simp only: unhex_hex mod_less_divisor zero_less_numeral nibbles)
  then show ?thesis
    by (simp only: unhex4_def) simp
qed

lemma unquote_closing: "unquote_units (0x22 # x) = Some ([], x)"
  by simp

lemma unquote_literal:
  "c \<noteq> 0x22 \<Longrightarrow> c \<noteq> 0x5C \<Longrightarrow>
     unquote_units (c # x) = map_option (\<lambda>(s, r). (c # s, r)) (unquote_units x)"
  by simp

lemma unquote_escape:
  "e \<noteq> 0x75 \<Longrightarrow>
     unquote_units (0x5C # e # x) = map_option (\<lambda>(s, r). (unescape e # s, r)) (unquote_units x)"
  by simp

lemma unquote_escape_u:
  "unquote_units (0x5C # 0x75 # h1 # h2 # h3 # h4 # x) =
     map_option (\<lambda>(s, r). (unhex4 h1 h2 h3 h4 # s, r)) (unquote_units x)"
  by simp

lemma surrogate_literal:
  "is_high_surrogate c \<or> is_low_surrogate c \<Longrightarrow> c \<noteq> 0x22 \<and> c \<noteq> 0x5C"
  by (auto simp: is_high_surrogate_def is_low_surrogate_def)

lemma unquote_unicode_escape:
  "unquote_units (unicode_escape c @ x) = map_option (\<lambda>(s, r). (c # s, r)) (unquote_units x)"
  by (simp add: unicode_escape_def unquote_escape_u unhex4_hex del: unquote_units.simps)

lemma unquote_quote_unit:
  "unquote_units (quote_unit c @ x) = map_option (\<lambda>(s, r). (c # s, r)) (unquote_units x)"
  by (simp add: quote_unit_def unquote_unicode_escape unquote_escape unquote_literal unescape_def
      del: unquote_units.simps)

lemma unquote_quote_units: "unquote_units (quote_units s @ 0x22 # r) = Some (s, r)"
proof (induction s rule: quote_units.induct)
  case 1
  show ?case by simp
next
  case (2 c)
  show ?case by (simp add: unquote_quote_unit unquote_closing del: unquote_units.simps)
next
  case (3 c d cs)
  show ?case
  proof (cases "is_high_surrogate c \<and> is_low_surrogate d")
    case True
    then have "unquote_units (quote_units cs @ 0x22 # r) = Some (cs, r)"
      by (rule 3)
    moreover have "c \<noteq> 0x22 \<and> c \<noteq> 0x5C" "d \<noteq> 0x22 \<and> d \<noteq> 0x5C"
      using True by (simp_all add: surrogate_literal)
    ultimately show ?thesis
      using True by (simp add: unquote_literal del: unquote_units.simps)
  next
    case False
    then have "unquote_units (quote_units (d # cs) @ 0x22 # r) = Some (d # cs, r)"
      by (rule 3)
    moreover have "quote_units (c # d # cs) = quote_unit c @ quote_units (d # cs)"
      using False by auto
    ultimately show ?thesis
      by (simp add: unquote_quote_unit del: unquote_units.simps quote_units.simps)
  qed
qed

lemma QuoteJSONString_inj:
  assumes "QuoteJSONString s @ r = QuoteJSONString s' @ r'"
  shows "s = s' \<and> r = r'"
proof -
  from assms have "quote_units s @ 0x22 # r = quote_units s' @ 0x22 # r'"
    by (simp add: QuoteJSONString_def)
  then have "unquote_units (quote_units s @ 0x22 # r) = unquote_units (quote_units s' @ 0x22 # r')"
    by simp
  then show ?thesis
    by (simp add: unquote_quote_units)
qed


subsection \<open>Numbers\<close>

lemma digit_unit:
  assumes "0 \<le> i" and "i < 10"
  shows "unat (of_int (0x30 + i) :: 16 word) = 0x30 + nat i"
proof -
  have "(of_int (0x30 + i) :: 16 word) = of_nat (0x30 + nat i)"
    using assms by (metis int_nat_eq of_int_of_nat_eq of_nat_add of_nat_numeral)
  moreover have "unat (of_nat (0x30 + nat i) :: 16 word) = 0x30 + nat i"
    using assms by (intro unat_small) simp
  ultimately show ?thesis
    by (simp only:)
qed

lemma digit_neq:
  assumes "0 \<le> i" and "i < 10" and "unat w < 0x30 \<or> 0x39 < unat w"
  shows "(of_int (0x30 + i) :: 16 word) \<noteq> w"
proof
  assume e: "(of_int (0x30 + i) :: 16 word) = w"
  have "unat w = 0x30 + nat i"
    using digit_unit [OF assms(1,2)] unfolding e .
  with assms show False by simp
qed

lemma read_digits_of: "0 \<le> i \<Longrightarrow> read_digits (digits_of i) = nat i"
proof (induction i rule: digits_of.induct)
  case (1 i)
  show ?case
  proof (cases "i < 10")
    case True
    with 1(2) have "unat (of_int (0x30 + i) :: 16 word) = 0x30 + nat i"
      by (rule digit_unit)
    with True show ?thesis
      by (simp only: digits_of.simps [of i] read_digits_def) simp
  next
    case False
    have "unat (of_int (0x30 + i mod 10) :: 16 word) = 0x30 + nat (i mod 10)"
      by (rule digit_unit) simp_all
    moreover have "read_digits (digits_of (i div 10)) = nat (i div 10)"
      using False 1(2) by (intro 1(1)) simp_all
    moreover have "10 * nat (i div 10) + nat (i mod 10) = nat i"
      using 1(2) by (simp add: nat_div_distrib nat_mod_distrib)
    ultimately show ?thesis
      using False by (simp only: digits_of.simps [of i] read_digits_def foldl_append) simp
  qed
qed

lemma digits_of_digit: "0 \<le> i \<Longrightarrow> c \<in> set (digits_of i) \<Longrightarrow> c \<noteq> 0x2D"
proof (induction i rule: digits_of.induct)
  case (1 i)
  have d: "(of_int (0x30 + k) :: 16 word) \<noteq> 0x2D" if "0 \<le> k" "k < 10" for k
    using that by (rule digit_neq) simp
  show ?case
  proof (cases "i < 10")
    case True
    with 1(2,3) d [of i] show ?thesis
      by (simp add: digits_of.simps [of i] del: of_int_add)
  next
    case False
    have "0 \<le> i div 10"
      using 1(2) by simp
    with False 1 d [of "i mod 10"] show ?thesis
      by (auto simp: digits_of.simps [of i] simp del: of_int_add)
  qed
qed

lemma digits_of_nonempty: "digits_of i \<noteq> []"
  by (simp add: digits_of.simps [of i])

lemma digits_of_inj:
  assumes "0 \<le> a" and "0 \<le> b" and "digits_of a = digits_of b"
  shows "a = b"
proof -
  have "nat a = nat b"
    using read_digits_of [OF assms(1)] read_digits_of [OF assms(2)] assms(3) by simp
  with assms(1,2) show ?thesis
    by simp
qed

lemma number_to_string_inj:
  assumes "number_to_string x = number_to_string y"
  shows "x = y"
proof -
  have neg: "hd (digits_of n) \<noteq> 0x2D" if "0 \<le> n" for n
    using digits_of_digit [OF that, of "hd (digits_of n)"] digits_of_nonempty [of n] by simp
  define i j where "i = sint x" and "j = sint y"
  have "i = j"
  proof (cases "i < 0")
    case True
    show ?thesis
    proof (cases "j < 0")
      case True
      with \<open>i < 0\<close> assms have "digits_of (- i) = digits_of (- j)"
        by (simp add: number_to_string_def i_def j_def)
      with True \<open>i < 0\<close> have "- i = - j"
        by (intro digits_of_inj) simp_all
      then show ?thesis by simp
    next
      case False
      with True assms have "0x2D # digits_of (- i) = digits_of j"
        by (simp add: number_to_string_def i_def j_def)
      then have "hd (digits_of j) = 0x2D"
        by (metis list.sel(1))
      with neg [of j] False show ?thesis by simp
    qed
  next
    case False
    show ?thesis
    proof (cases "j < 0")
      case True
      with False assms have "digits_of i = 0x2D # digits_of (- j)"
        by (simp add: number_to_string_def i_def j_def)
      then have "hd (digits_of i) = 0x2D"
        by (metis list.sel(1))
      with neg [of i] False show ?thesis by simp
    next
      case False
      with \<open>\<not> i < 0\<close> assms have "digits_of i = digits_of j"
        by (simp add: number_to_string_def i_def j_def)
      with False \<open>\<not> i < 0\<close> show ?thesis
        by (intro digits_of_inj) simp_all
    qed
  qed
  then have "(word_of_int (sint x) :: 54 word) = word_of_int (sint y)"
    by (simp add: i_def j_def)
  then show ?thesis
    by simp
qed

lemma number_to_string_examples:
  "number_to_string 0 = js ''0''"
  "number_to_string 1500 = js ''1500''"
  "number_to_string (- 42) = js ''-42''"
  "number_to_string 9007199254740991 = js ''9007199254740991''"
  "number_to_string (- 9007199254740992) = js ''-9007199254740992''"
  by code_simp+

lemma digits_of_hd:
  "0 \<le> n \<Longrightarrow> digits_of n \<noteq> [] \<and> hd (digits_of n) \<noteq> 0x6E \<and> hd (digits_of n) \<noteq> 0x74
   \<and> hd (digits_of n) \<noteq> 0x66 \<and> hd (digits_of n) \<noteq> 0x22 \<and> hd (digits_of n) \<noteq> 0x5B"
proof (induction n rule: digits_of.induct)
  case (1 n)
  show ?case
  proof (cases "n < 10")
    case True
    with 1(2) have "(of_int (0x30 + n) :: 16 word) \<noteq> 0x6E" "(of_int (0x30 + n) :: 16 word) \<noteq> 0x74"
      "(of_int (0x30 + n) :: 16 word) \<noteq> 0x66" "(of_int (0x30 + n) :: 16 word) \<noteq> 0x22"
      "(of_int (0x30 + n) :: 16 word) \<noteq> 0x5B"
      by (simp_all add: digit_neq del: of_int_add)
    then show ?thesis
      using True by (simp add: digits_of.simps [of n] del: of_int_add)
  next
    case False
    have "0 \<le> n div 10"
      using 1(2) by simp
    with False 1 show ?thesis
      by (simp add: digits_of.simps [of n] del: of_int_add)
  qed
qed

lemma number_to_string_first:
  assumes "number_to_string i = c # s"
  shows "c \<noteq> 0x6E \<and> c \<noteq> 0x74 \<and> c \<noteq> 0x66 \<and> c \<noteq> 0x22 \<and> c \<noteq> 0x5B"
proof -
  have "hd (number_to_string i) \<noteq> 0x6E \<and> hd (number_to_string i) \<noteq> 0x74
    \<and> hd (number_to_string i) \<noteq> 0x66 \<and> hd (number_to_string i) \<noteq> 0x22
    \<and> hd (number_to_string i) \<noteq> 0x5B"
    using digits_of_hd [of "sint i"] digits_of_hd [of "- sint i"]
    by (simp add: number_to_string_def)
  then show ?thesis
    by (simp add: assms)
qed


subsection \<open>Arrays of strings\<close>

lemma array_elements_Cons:
  "array_elements (x # xs) =
     QuoteJSONString x @ (if xs = [] then [0x5D] else 0x2C # array_elements xs)"
  by (cases xs) simp_all

lemma array_elements_inj: "array_elements xs = array_elements ys \<Longrightarrow> xs = ys"
proof (induction xs arbitrary: ys)
  case Nil
  then show ?case
    by (cases ys) (simp_all add: array_elements_Cons QuoteJSONString_def)
next
  case (Cons x xs)
  show ?case
  proof (cases ys)
    case Nil
    with Cons.prems show ?thesis
      by (simp add: array_elements_Cons QuoteJSONString_def)
  next
    case (Cons y ys')
    with Cons.prems have
      "QuoteJSONString x @ (if xs = [] then [0x5D] else 0x2C # array_elements xs) =
       QuoteJSONString y @ (if ys' = [] then [0x5D] else 0x2C # array_elements ys')"
      by (simp only: array_elements_Cons)
    then have xy: "x = y"
      and r: "(if xs = [] then [0x5D] else 0x2C # array_elements xs) =
              (if ys' = [] then [0x5D] else 0x2C # array_elements ys')"
      using QuoteJSONString_inj by blast+
    from r have "xs = ys'"
      using Cons.IH [of ys'] by (auto split: if_splits)
    with xy Cons show ?thesis by simp
  qed
qed

text \<open>\<open>JSON.stringify\<close> tells the values apart.\<close>

lemma JSON_stringify_inj:
  assumes "JSON_stringify v = JSON_stringify w"
  shows "v = w"
proof (cases v)
  case JNull
  with assms show ?thesis
    by (cases w) (auto simp: js_def QuoteJSONString_def split: if_splits
        dest: number_to_string_first number_to_string_first [OF sym])
next
  case (JBool b)
  with assms show ?thesis
    by (cases w) (auto simp: js_def QuoteJSONString_def split: if_splits
        dest: number_to_string_first number_to_string_first [OF sym])
next
  case (JNum i)
  with assms show ?thesis
    by (cases w) (auto simp: js_def QuoteJSONString_def split: if_splits
        dest: number_to_string_first number_to_string_first [OF sym] number_to_string_inj)
next
  case (JStr s)
  with assms QuoteJSONString_inj [of s "[]" _ "[]"] show ?thesis
    by (cases w) (auto simp: js_def QuoteJSONString_def split: if_splits
        dest: number_to_string_first number_to_string_first [OF sym])
next
  case (JStrs xs)
  with assms show ?thesis
    by (cases w) (auto simp: js_def QuoteJSONString_def split: if_splits
        dest: number_to_string_first number_to_string_first [OF sym] array_elements_inj)
qed

section \<open>The settings autosave\<close>

lemma set_field_new: "key \<notin> fst ` set obj \<Longrightarrow> set_field key v obj = obj @ [(key, v)]"
  by (induction obj) auto

lemma get_field_set_field: "get_field (set_field key v obj) key = Some v"
  by (induction obj) (auto simp: get_field_def)

lemma get_field_set_field_other:
  "k \<noteq> key \<Longrightarrow> get_field (set_field key v obj) k = get_field obj k"
  by (induction obj) (auto simp: get_field_def)

lemma keys_set_field:
  "key \<in> fst ` set obj \<Longrightarrow> map fst (set_field key v obj) = map fst obj"
proof (induction obj)
  case Nil
  then show ?case by simp
next
  case (Cons e obj)
  obtain k w where e: "e = (k, w)" by (cases e)
  show ?case
  proof (cases "k = key")
    case True
    with e show ?thesis by simp
  next
    case False
    with Cons.prems e have "key \<in> fst ` set obj" by auto
    with Cons.IH False e show ?thesis by simp
  qed
qed

lemma stringify_field_eq:
  "stringify_field a k = stringify_field b k \<longleftrightarrow> get_field a k = get_field b k"
proof
  assume "stringify_field a k = stringify_field b k"
  then show "get_field a k = get_field b k"
    by (cases "get_field a k"; cases "get_field b k")
      (auto simp: stringify_field_def dest: JSON_stringify_inj)
qed (simp add: stringify_field_def)

lemma changes_fold:
  assumes "distinct (map fst es)"
    and "\<forall>(k, v) \<in> set es. get_field newSettings k = Some v"
    and "fst ` set acc \<inter> fst ` set es = {}"
  shows "foldl (\<lambda>changes key.
              if stringify_field newSettings key \<noteq> stringify_field original key
              then (case get_field newSettings key of
                      Some v \<Rightarrow> set_field key v changes
                    | None \<Rightarrow> changes)
              else changes) acc (map fst es)
         = acc @ filter (\<lambda>(k, v). get_field original k \<noteq> Some v) es"
  using assms
proof (induction es arbitrary: acc)
  case Nil
  then show ?case by simp
next
  case (Cons e es)
  obtain k v where e: "e = (k, v)" by (cases e)
  have g: "get_field newSettings k = Some v"
    using Cons.prems(2) e by simp
  have k: "k \<notin> fst ` set acc" "k \<notin> fst ` set es"
    using Cons.prems(1,3) e by auto
  show ?case
  proof (cases "get_field original k = Some v")
    case True
    have "fst ` set acc \<inter> fst ` set es = {}"
      using Cons.prems(3) by auto
    then show ?thesis
      using Cons.IH [of acc] Cons.prems(1,2) True g e
      by (simp add: stringify_field_eq)
  next
    case False
    have "fst ` set (acc @ [(k, v)]) \<inter> fst ` set es = {}"
      using Cons.prems(3) k by auto
    then have "foldl (\<lambda>changes key.
              if stringify_field newSettings key \<noteq> stringify_field original key
              then (case get_field newSettings key of
                      Some v \<Rightarrow> set_field key v changes
                    | None \<Rightarrow> changes)
              else changes) (acc @ [(k, v)]) (map fst es)
         = (acc @ [(k, v)]) @ filter (\<lambda>(k, v). get_field original k \<noteq> Some v) es"
      using Cons.prems(1,2) by (intro Cons.IH) auto
    then show ?thesis
      using False g e k(1) by (simp add: stringify_field_eq set_field_new)
  qed
qed

lemma get_field_distinct:
  "distinct (map fst obj) \<Longrightarrow> (k, v) \<in> set obj \<Longrightarrow> get_field obj k = Some v"
  by (simp add: get_field_def)

lemma changes_of_differing:
  assumes "distinct (Object_keys newSettings)"
  shows "changes_of newSettings original = differing newSettings original"
proof -
  have "\<forall>(k, v) \<in> set newSettings. get_field newSettings k = Some v"
    using assms by (auto simp: Object_keys_def get_field_distinct)
  then show ?thesis
    using assms changes_fold [of newSettings newSettings "[]" original]
    by (simp add: changes_of_def differing_def Object_keys_def)
qed

lemma patches_saveChanges:
  "patches_sent (fst (saveChanges update_ok seen changes st)) =
     (if changes = [] then [] else [changes])"
  by (simp add: saveChanges_def patches_sent_def Object_keys_def Let_def)

lemma handleFieldChange_patches:
  assumes "originalSettings st = Some original" and "distinct (Object_keys newSettings)"
  shows "patches_sent (fst (handleFieldChange update_ok newSettings st)) =
           (if differing newSettings original = [] then []
            else [differing newSettings original])"
  using assms
  by (simp add: handleFieldChange_def changes_of_differing Let_def patches_saveChanges
      Object_keys_def) (simp add: patches_sent_def)

lemma differing_same:
  "distinct (Object_keys obj) \<Longrightarrow> differing obj obj = []"
  by (auto simp: differing_def Object_keys_def filter_empty_conv get_field_distinct)

lemma differing_one:
  assumes "distinct (Object_keys original)" and "get_field original key = Some w" and "w \<noteq> v"
  shows "differing (set_field key v original) original = [(key, v)]"
proof -
  have "filter (\<lambda>(k, x). get_field (pre @ obj) k \<noteq> Some x) (set_field key v obj) = [(key, v)]"
    if "distinct (map fst (pre @ obj))" "get_field (pre @ obj) key = Some w" "key \<in> fst ` set obj"
    for pre obj
    using that
  proof (induction obj arbitrary: pre)
    case Nil
    then show ?case by simp
  next
    case (Cons e obj)
    obtain k x where e: "e = (k, x)" by (cases e)
    have d: "distinct (map fst ((pre @ [e]) @ obj))"
      using Cons.prems(1) by simp
    have all: "get_field (pre @ e # obj) k' = Some x'" if "(k', x') \<in> set obj" for k' x'
      using Cons.prems(1) that by (intro get_field_distinct) auto
    show ?case
    proof (cases "k = key")
      case True
      have "get_field (pre @ e # obj) k = Some x"
        using Cons.prems(1) e by (intro get_field_distinct) auto
      with True Cons.prems(2) have "x = w" by simp
      moreover have "filter (\<lambda>(k, x). get_field (pre @ e # obj) k \<noteq> Some x) obj = []"
        using all by (auto simp: filter_empty_conv)
      ultimately show ?thesis
        using True e assms(3) Cons.prems(2) by simp
    next
      case False
      have "get_field (pre @ e # obj) k = Some x"
        using Cons.prems(1) e by (intro get_field_distinct) auto
      moreover have "filter (\<lambda>(k, x). get_field ((pre @ [e]) @ obj) k \<noteq> Some x)
          (set_field key v obj) = [(key, v)]"
        using d Cons.prems(2,3) False e by (intro Cons.IH) auto
      ultimately show ?thesis
        using False e by simp
    qed
  qed
  note main = this
  have "(key, w) \<in> set original"
    using assms(2) by (simp add: get_field_def map_of_SomeD)
  then have "key \<in> fst ` set original"
    by (rule rev_image_eqI) simp
  then show ?thesis
    using main [of "[]" original] assms(1,2) by (simp add: differing_def Object_keys_def)
qed

text \<open>
  C6. For an autosave (a blur or a toggle calls \<open>handleFieldChange\<close> with the current
  settings) against a loaded baseline, the numbers of both being integers from \<open>-2\<^sup>5\<^sup>3\<close>
  to \<open>2\<^sup>5\<^sup>3 - 1\<close>: the handler sends at most one update request,
  and its patch is exactly the list of the fields whose current value differs from the
  baseline snapshot, each with its current value; when exactly one field was edited the
  patch is that field with its new value alone; when no field differs no request is sent.
\<close>

theorem handleFieldChange_patch:
  assumes "originalSettings st = Some original" and "distinct (Object_keys newSettings)"
  shows "patches_sent (fst (handleFieldChange update_ok newSettings st)) =
           (if differing newSettings original = [] then []
            else [differing newSettings original])
    \<and> (\<forall>k v. (k, v) \<in> set (differing newSettings original) \<longleftrightarrow>
          get_field newSettings k = Some v \<and> get_field original k \<noteq> Some v)
    \<and> (get_field original key = Some w \<and> w \<noteq> v \<and> distinct (Object_keys original)
          \<and> newSettings = set_field key v original \<longrightarrow>
        patches_sent (fst (handleFieldChange update_ok newSettings st)) = [[(key, v)]])
    \<and> (newSettings = original \<longrightarrow>
        fst (handleFieldChange update_ok newSettings st) = [])"
proof (intro conjI allI impI)
  show p: "patches_sent (fst (handleFieldChange update_ok newSettings st)) =
           (if differing newSettings original = [] then []
            else [differing newSettings original])"
    using assms by (rule handleFieldChange_patches)
  show "(k, v) \<in> set (differing newSettings original) \<longleftrightarrow>
          get_field newSettings k = Some v \<and> get_field original k \<noteq> Some v" for k v
    using assms(2)
    by (auto simp: differing_def Object_keys_def get_field_distinct get_field_def
        dest: map_of_SomeD)
  show "patches_sent (fst (handleFieldChange update_ok newSettings st)) = [[(key, v)]]"
    if "get_field original key = Some w \<and> w \<noteq> v \<and> distinct (Object_keys original)
          \<and> newSettings = set_field key v original"
    using that p differing_one [of original key w v] by simp
  show "fst (handleFieldChange update_ok newSettings st) = []" if "newSettings = original"
    using that assms
    by (simp add: handleFieldChange_def changes_of_differing differing_same Let_def
        Object_keys_def)
qed

lemma example_settings_keys: "distinct (Object_keys example_settings)"
  by (simp add: example_settings_def Object_keys_def js_def)

lemma example_settings_proxy:
  "set_field (js ''proxy_url'') (JStr (js ''http://p'')) example_settings =
     [(js ''api_keys'', JStrs [js ''sk-one'']),
      (js ''admin_api_keys'', JStrs []),
      (js ''claude_ai_url'', JStr (js ''https://claude.ai'')),
      (js ''proxy_url'', JStr (js ''http://p'')),
      (js ''padtxt_length'', JNum 0),
      (js ''use_real_roles'', JBool True)]"
  "get_field example_settings (js ''proxy_url'') = Some JNull"
  by (simp_all add: example_settings_def get_field_def js_def)

theorem handleFieldChange_patch_witness:
  "originalSettings example_settings_state = Some example_settings
   \<and> distinct (Object_keys (set_field (js ''proxy_url'') (JStr (js ''http://p'')) example_settings))
   \<and> patches_sent (fst (handleFieldChange (\<lambda>p. True)
        (set_field (js ''proxy_url'') (JStr (js ''http://p'')) example_settings)
        example_settings_state)) = [[(js ''proxy_url'', JStr (js ''http://p''))]]
   \<and> distinct (Object_keys example_settings)
   \<and> fst (handleFieldChange (\<lambda>p. True) example_settings example_settings_state) = []"
proof -
  have o: "originalSettings example_settings_state = Some example_settings"
    by (simp add: example_settings_state_def)
  have d: "distinct (Object_keys (set_field (js ''proxy_url'') (JStr (js ''http://p'')) example_settings))"
    unfolding example_settings_proxy(1) by (simp add: Object_keys_def js_def)
  have "patches_sent (fst (handleFieldChange (\<lambda>p. True)
        (set_field (js ''proxy_url'') (JStr (js ''http://p'')) example_settings)
        example_settings_state)) = [[(js ''proxy_url'', JStr (js ''http://p''))]]"
    using handleFieldChange_patch [OF o d, of "\<lambda>p. True" "js ''proxy_url''" JNull "JStr (js ''http://p'')",
        THEN conjunct2, THEN conjunct2, THEN conjunct1, THEN mp]
      example_settings_proxy(2) example_settings_keys by simp
  moreover have "fst (handleFieldChange (\<lambda>p. True) example_settings example_settings_state) = []"
    using handleFieldChange_patch [OF o example_settings_keys, of "\<lambda>p. True",
        THEN conjunct2, THEN conjunct2, THEN conjunct2, THEN mp] by simp
  ultimately show ?thesis
    using o d example_settings_keys by simp
qed

section \<open>The key lists\<close>

lemma string_array_set_field:
  "string_array (set_field field (JStrs xs) s) field = Some xs"
  by (simp add: string_array_def get_field_set_field)

lemma handleFieldChange_state:
  "settings (snd (handleFieldChange update_ok newSettings st)) = Some newSettings"
  by (simp add: handleFieldChange_def saveChanges_def Let_def split: option.splits)

lemma handleAddApiKey_result:
  assumes "settings st = Some s" and "string_array s (js ''api_keys'') = Some keys"
  shows "\<exists>acts st'. handleAddApiKey update_ok st = Some (acts, st')
    \<and> (newApiKey st = [] \<or> newApiKey st \<in> set keys \<longrightarrow> acts = [] \<and> st' = st)
    \<and> (\<exists>s'. settings st' = Some s'
          \<and> string_array s' (js ''api_keys'') =
              Some (if newApiKey st = [] \<or> newApiKey st \<in> set keys then keys
                    else keys @ [newApiKey st]))"
proof (cases "newApiKey st = [] \<or> newApiKey st \<in> set keys")
  case True
  then have "handleAddApiKey update_ok st = Some ([], st)"
    using assms by (auto simp: handleAddApiKey_def)
  with True assms show ?thesis by simp
next
  case False
  let ?new = "set_field (js ''api_keys'') (JStrs (keys @ [newApiKey st])) s"
  obtain acts st' where h: "handleFieldChange update_ok ?new st = (acts, st')"
    by (cases "handleFieldChange update_ok ?new st") auto
  then have "settings st' = Some ?new"
    using handleFieldChange_state [of update_ok ?new st] by simp
  moreover have "handleAddApiKey update_ok st = Some (acts, st'\<lparr>newApiKey := []\<rparr>)"
    using False assms h by (simp add: handleAddApiKey_def Let_def)
  ultimately show ?thesis
    using False by (simp add: string_array_set_field)
qed

lemma handleAddAdminKey_result:
  assumes "settings st = Some s" and "string_array s (js ''admin_api_keys'') = Some keys"
  shows "\<exists>acts st'. handleAddAdminKey update_ok st = Some (acts, st')
    \<and> (newAdminKey st = [] \<or> newAdminKey st \<in> set keys \<longrightarrow> acts = [] \<and> st' = st)
    \<and> (\<exists>s'. settings st' = Some s'
          \<and> string_array s' (js ''admin_api_keys'') =
              Some (if newAdminKey st = [] \<or> newAdminKey st \<in> set keys then keys
                    else keys @ [newAdminKey st]))"
proof (cases "newAdminKey st = [] \<or> newAdminKey st \<in> set keys")
  case True
  then have "handleAddAdminKey update_ok st = Some ([], st)"
    using assms by (auto simp: handleAddAdminKey_def)
  with True assms show ?thesis by simp
next
  case False
  let ?new = "set_field (js ''admin_api_keys'') (JStrs (keys @ [newAdminKey st])) s"
  obtain acts st' where h: "handleFieldChange update_ok ?new st = (acts, st')"
    by (cases "handleFieldChange update_ok ?new st") auto
  then have "settings st' = Some ?new"
    using handleFieldChange_state [of update_ok ?new st] by simp
  moreover have "handleAddAdminKey update_ok st = Some (acts, st'\<lparr>newAdminKey := []\<rparr>)"
    using False assms h by (simp add: handleAddAdminKey_def Let_def)
  ultimately show ?thesis
    using False by (simp add: string_array_set_field)
qed

lemma handleRemoveApiKey_result:
  assumes "settings st = Some s" and "string_array s (js ''api_keys'') = Some keys"
  shows "\<exists>acts st' s'. handleRemoveApiKey update_ok key st = Some (acts, st')
    \<and> settings st' = Some s'
    \<and> string_array s' (js ''api_keys'') = Some (filter (\<lambda>k. k \<noteq> key) keys)"
proof -
  let ?new = "set_field (js ''api_keys'') (JStrs (filter (\<lambda>k. k \<noteq> key) keys)) s"
  obtain acts st' where h: "handleFieldChange update_ok ?new st = (acts, st')"
    by (cases "handleFieldChange update_ok ?new st") auto
  then have "settings st' = Some ?new"
    using handleFieldChange_state [of update_ok ?new st] by simp
  moreover have "handleRemoveApiKey update_ok key st = Some (acts, st')"
    using assms h by (simp add: handleRemoveApiKey_def)
  ultimately show ?thesis
    by (simp add: string_array_set_field)
qed

lemma handleRemoveAdminKey_result:
  assumes "settings st = Some s" and "string_array s (js ''admin_api_keys'') = Some keys"
  shows "\<exists>acts st' s'. handleRemoveAdminKey update_ok key st = Some (acts, st')
    \<and> settings st' = Some s'
    \<and> string_array s' (js ''admin_api_keys'') = Some (filter (\<lambda>k. k \<noteq> key) keys)"
proof -
  let ?new = "set_field (js ''admin_api_keys'') (JStrs (filter (\<lambda>k. k \<noteq> key) keys)) s"
  obtain acts st' where h: "handleFieldChange update_ok ?new st = (acts, st')"
    by (cases "handleFieldChange update_ok ?new st") auto
  then have "settings st' = Some ?new"
    using handleFieldChange_state [of update_ok ?new st] by simp
  moreover have "handleRemoveAdminKey update_ok key st = Some (acts, st')"
    using assms h by (simp add: handleRemoveAdminKey_def)
  ultimately show ?thesis
    by (simp add: string_array_set_field)
qed

text \<open>
  C10. On the settings page with loaded settings, the add-API-key and add-admin-key
  actions do nothing (no request, no change of the state) when the entered key is empty
  or already in the corresponding list, and append the entered key otherwise; so a list
  without duplicates has none after an add action. The remove actions leave the list
  filtered of every occurrence of the targeted key. Before the settings are loaded the
  add actions do nothing.
\<close>

theorem settings_key_lists:
  assumes "settings st = Some s"
    and "string_array s (js ''api_keys'') = Some keys"
    and "string_array s (js ''admin_api_keys'') = Some admin_keys"
  shows "(\<exists>acts st' s' keys'. handleAddApiKey update_ok st = Some (acts, st')
          \<and> (newApiKey st = [] \<or> newApiKey st \<in> set keys \<longrightarrow> acts = [] \<and> st' = st)
          \<and> settings st' = Some s' \<and> string_array s' (js ''api_keys'') = Some keys'
          \<and> keys' = (if newApiKey st = [] \<or> newApiKey st \<in> set keys then keys
                      else keys @ [newApiKey st])
          \<and> (distinct keys \<longrightarrow> distinct keys'))
    \<and> (\<exists>acts st' s' keys'. handleAddAdminKey update_ok st = Some (acts, st')
          \<and> (newAdminKey st = [] \<or> newAdminKey st \<in> set admin_keys \<longrightarrow> acts = [] \<and> st' = st)
          \<and> settings st' = Some s' \<and> string_array s' (js ''admin_api_keys'') = Some keys'
          \<and> keys' = (if newAdminKey st = [] \<or> newAdminKey st \<in> set admin_keys then admin_keys
                      else admin_keys @ [newAdminKey st])
          \<and> (distinct admin_keys \<longrightarrow> distinct keys'))
    \<and> (\<exists>acts st' s' keys'. handleRemoveApiKey update_ok key st = Some (acts, st')
          \<and> settings st' = Some s' \<and> string_array s' (js ''api_keys'') = Some keys'
          \<and> keys' = filter (\<lambda>k. k \<noteq> key) keys \<and> key \<notin> set keys')
    \<and> (\<exists>acts st' s' keys'. handleRemoveAdminKey update_ok key st = Some (acts, st')
          \<and> settings st' = Some s' \<and> string_array s' (js ''admin_api_keys'') = Some keys'
          \<and> keys' = filter (\<lambda>k. k \<noteq> key) admin_keys \<and> key \<notin> set keys')
    \<and> handleAddApiKey update_ok (st\<lparr>settings := None\<rparr>) = Some ([], st\<lparr>settings := None\<rparr>)
    \<and> handleAddAdminKey update_ok (st\<lparr>settings := None\<rparr>) = Some ([], st\<lparr>settings := None\<rparr>)"
proof (intro conjI)
  from handleAddApiKey_result [OF assms(1,2), of update_ok]
  show "\<exists>acts st' s' keys'. handleAddApiKey update_ok st = Some (acts, st')
          \<and> (newApiKey st = [] \<or> newApiKey st \<in> set keys \<longrightarrow> acts = [] \<and> st' = st)
          \<and> settings st' = Some s' \<and> string_array s' (js ''api_keys'') = Some keys'
          \<and> keys' = (if newApiKey st = [] \<or> newApiKey st \<in> set keys then keys
                      else keys @ [newApiKey st])
          \<and> (distinct keys \<longrightarrow> distinct keys')"
    by (elim exE conjE) (intro exI conjI, assumption+, auto)
  from handleAddAdminKey_result [OF assms(1,3), of update_ok]
  show "\<exists>acts st' s' keys'. handleAddAdminKey update_ok st = Some (acts, st')
          \<and> (newAdminKey st = [] \<or> newAdminKey st \<in> set admin_keys \<longrightarrow> acts = [] \<and> st' = st)
          \<and> settings st' = Some s' \<and> string_array s' (js ''admin_api_keys'') = Some keys'
          \<and> keys' = (if newAdminKey st = [] \<or> newAdminKey st \<in> set admin_keys then admin_keys
                      else admin_keys @ [newAdminKey st])
          \<and> (distinct admin_keys \<longrightarrow> distinct keys')"
    by (elim exE conjE) (intro exI conjI, assumption+, auto)
  from handleRemoveApiKey_result [OF assms(1,2), of update_ok key]
  show "\<exists>acts st' s' keys'. handleRemoveApiKey update_ok key st = Some (acts, st')
          \<and> settings st' = Some s' \<and> string_array s' (js ''api_keys'') = Some keys'
          \<and> keys' = filter (\<lambda>k. k \<noteq> key) keys \<and> key \<notin> set keys'"
    by auto
  from handleRemoveAdminKey_result [OF assms(1,3), of update_ok key]
  show "\<exists>acts st' s' keys'. handleRemoveAdminKey update_ok key st = Some (acts, st')
          \<and> settings st' = Some s' \<and> string_array s' (js ''admin_api_keys'') = Some keys'
          \<and> keys' = filter (\<lambda>k. k \<noteq> key) admin_keys \<and> key \<notin> set keys'"
    by auto
  show "handleAddApiKey update_ok (st\<lparr>settings := None\<rparr>) = Some ([], st\<lparr>settings := None\<rparr>)"
    by (simp add: handleAddApiKey_def)
  show "handleAddAdminKey update_ok (st\<lparr>settings := None\<rparr>) = Some ([], st\<lparr>settings := None\<rparr>)"
    by (simp add: handleAddAdminKey_def)
qed

lemma example_settings_arrays:
  "string_array example_settings (js ''api_keys'') = Some [js ''sk-one'']"
  "string_array example_settings (js ''admin_api_keys'') = Some []"
  by (simp_all add: example_settings_def string_array_def get_field_def js_def)

theorem settings_key_lists_witness:
  "settings example_settings_state = Some example_settings
   \<and> string_array example_settings (js ''api_keys'') = Some [js ''sk-one'']
   \<and> string_array example_settings (js ''admin_api_keys'') = Some []
   \<and> (\<exists>acts st' s'. handleAddApiKey (\<lambda>p. True) example_settings_state = Some (acts, st')
         \<and> settings st' = Some s'
         \<and> string_array s' (js ''api_keys'') = Some [js ''sk-one'', js ''sk-two''])
   \<and> (\<exists>acts st' s'. handleRemoveApiKey (\<lambda>p. True) (js ''sk-one'') example_settings_state
           = Some (acts, st')
         \<and> settings st' = Some s' \<and> string_array s' (js ''api_keys'') = Some [])
   \<and> handleAddAdminKey (\<lambda>p. True) example_settings_state = Some ([], example_settings_state)"
proof -
  have s: "settings example_settings_state = Some example_settings"
    by (simp add: example_settings_state_def)
  have n: "newApiKey example_settings_state = js ''sk-two''"
    "newAdminKey example_settings_state = []"
    by (simp_all add: example_settings_state_def)
  have ne: "js ''sk-two'' \<noteq> []" "js ''sk-two'' \<noteq> js ''sk-one''"
    by (simp_all add: js_def)
  note t = settings_key_lists [OF s example_settings_arrays, of "\<lambda>p. True" "js ''sk-one''"]
  have 1: "\<exists>acts st' s'. handleAddApiKey (\<lambda>p. True) example_settings_state = Some (acts, st')
         \<and> settings st' = Some s'
         \<and> string_array s' (js ''api_keys'') = Some [js ''sk-one'', js ''sk-two'']"
    using t [THEN conjunct1] n ne by auto
  have 2: "\<exists>acts st' s'. handleRemoveApiKey (\<lambda>p. True) (js ''sk-one'') example_settings_state
           = Some (acts, st')
         \<and> settings st' = Some s' \<and> string_array s' (js ''api_keys'') = Some []"
    using t [THEN conjunct2, THEN conjunct2, THEN conjunct1] by auto
  have 3: "handleAddAdminKey (\<lambda>p. True) example_settings_state = Some ([], example_settings_state)"
    using t [THEN conjunct2, THEN conjunct1] n by auto
  show ?thesis
    using s example_settings_arrays 1 2 3 by (intro conjI)
qed

end
